theory Spec2Isabelle
  imports Complex_Main "HOL-Library.AList" "HOL-Library.Multiset" "HOL-Library.Sublist"
begin

section \<open>The task queue of \<open>task_queue_testing/src/queue.ts\<close>\<close>

text \<open>
  The class \<open>TaskQueue\<close> is embedded as a record of its fields and one function per
  method. JavaScript runs every method, every timer callback and every continuation
  after an \<open>await\<close> to completion, so each of them is one atomic state transformer.

  Conventions of the embedding:
  \<^item> A task identifier \<open>task_<Date.now()>_<idCounter>\<close> is the pair of the two numbers
    it is printed from.
  \<^item> \<open>Task\<close> objects live in a store \<open>objects\<close>, keyed by identifier; the field
    \<open>tasks\<close> holds the keys of the \<open>Map\<close>. A closure of \<open>executeTask\<close> keeps its
    reference to the object also after \<open>clear\<close> has deleted the key.
  \<open>tasks_get\<close> is \<open>this.tasks.get\<close>.
  \<^item> Every call of \<open>executeTask\<close> that passes its guard allocates an \<open>invocation\<close>:
    the closure variable \<open>timedOut\<close>, the timeout timer and the pending promise of
    the handler. Its index is the timer handle. Every \<open>scheduleRetry\<close> allocates a
    \<open>retry\<close> timer in the same way.
  \<^item> Numbers that the code uses as counts (\<open>maxConcurrency\<close>, \<open>maxRetries\<close>,
    \<open>attempts\<close>, \<open>priority\<close>, milliseconds) are integers; an argument of \<open>enqueue\<close>
    that is not an integer is the value \<open>NotAnInteger\<close>.
  \<^item> A handler is an opaque name: it returns a promise, and the promise settles in a
    later event. Callbacks are opaque names too; a call of a callback is recorded in
    \<open>notifications\<close> with the task as it was at the call.
  \<^item> \<open>enqueued\<close> and \<open>enqueuedAt\<close> are history variables, not fields of the class:
    they number the calls of \<open>insertByPriority\<close>, and no code path reads them.
\<close>

type_synonym TaskId = "nat \<times> nat"
type_synonym handler = nat
type_synonym callback = nat
type_synonym unknown = string

datatype TaskStatus = Pending | Running | Completed | Failed | Timed_out

record Task =
  task_id :: TaskId
  status :: TaskStatus
  priority :: int
  data :: unknown
  result :: "unknown option"
  error :: "string option"
  attempts :: int
  maxRetries :: int
  createdAt :: nat
  startedAt :: "nat option"
  completedAt :: "nat option"

datatype handler_arg = Function handler | NotAFunction

datatype number_arg = Undefined | Integer int | NotAnInteger

record TaskConfig =
  cfg_handler :: handler_arg
  cfg_data :: unknown
  cfg_priority :: number_arg
  cfg_maxRetries :: number_arg
  cfg_retryBaseDelay :: number_arg
  cfg_timeout :: number_arg

record QueueOptions =
  opt_maxConcurrency :: "int option"
  opt_defaultTimeout :: "int option"
  opt_defaultMaxRetries :: "int option"
  opt_defaultRetryBaseDelay :: "int option"

datatype timer_state = Armed | Fired | Cleared

record invocation =
  inv_task :: TaskId
  inv_handler :: handler
  timeout_ms :: int
  timedOut :: bool
  timeoutTimer :: timer_state
  settled :: bool

record retry =
  retry_task :: TaskId
  delay :: rat
  retryTimer :: timer_state

datatype notification = Notify callback Task

datatype outcome = Resolved unknown | Rejected string

datatype error =
    DisposedQueue | HandlerNotFunction | PriorityOutOfRange | MaxRetriesInvalid
  | MaxConcurrencyTooSmall | TypeError

record State =
  objects :: "TaskId \<Rightarrow> Task option"
  tasks :: "TaskId list"
  queue :: "TaskId list"
  running :: "TaskId set"
  timers :: "(TaskId \<times> nat) list"
  retryTimers :: "(TaskId \<times> nat) list"
  handlers :: "TaskId \<Rightarrow> handler option"
  paused :: bool
  disposed :: bool
  idCounter :: nat
  maxConcurrency :: int
  defaultTimeout :: int
  defaultMaxRetries :: int
  defaultRetryBaseDelay :: int
  onCompleteCallback :: "callback option"
  onFailedCallback :: "callback option"
  invocations :: "invocation list"
  retries :: "retry list"
  notifications :: "notification list"
  enqueued :: nat
  enqueuedAt :: "TaskId \<Rightarrow> nat"

subsection \<open>Construction\<close>

definition TaskQueue_new :: "QueueOptions \<Rightarrow> error + State" where
  "TaskQueue_new options =
     (let mc = (case opt_maxConcurrency options of None \<Rightarrow> 5 | Some n \<Rightarrow> n) in
      if mc < 1 then Inl MaxConcurrencyTooSmall
      else Inr \<lparr> objects = (\<lambda>_. None), tasks = [], queue = [], running = {},
                 timers = [], retryTimers = [], handlers = (\<lambda>_. None),
                 paused = False, disposed = False, idCounter = 0,
                 maxConcurrency = mc,
                 defaultTimeout =
                   (case opt_defaultTimeout options of None \<Rightarrow> 30000 | Some n \<Rightarrow> n),
                 defaultMaxRetries =
                   (case opt_defaultMaxRetries options of None \<Rightarrow> 3 | Some n \<Rightarrow> n),
                 defaultRetryBaseDelay =
                   (case opt_defaultRetryBaseDelay options of None \<Rightarrow> 1000 | Some n \<Rightarrow> n),
                 onCompleteCallback = None, onFailedCallback = None,
                 invocations = [], retries = [], notifications = [],
                 enqueued = 0, enqueuedAt = (\<lambda>_. 0) \<rparr>)"

subsection \<open>Stores\<close>

definition tasks_get :: "State \<Rightarrow> TaskId \<Rightarrow> Task option" where
  "tasks_get s tid = (if tid \<in> set (tasks s) then objects s tid else None)"

definition getTask :: "TaskId \<Rightarrow> State \<Rightarrow> Task option" where
  "getTask tid s = tasks_get s tid"

text \<open>A write through a reference to a \<open>Task\<close> object.\<close>

definition modify_task :: "TaskId \<Rightarrow> (Task \<Rightarrow> Task) \<Rightarrow> State \<Rightarrow> State" where
  "modify_task tid f s =
     (case objects s tid of
        None \<Rightarrow> s
      | Some t \<Rightarrow> s\<lparr> objects := (objects s)(tid \<mapsto> f t) \<rparr>)"

text \<open>\<open>clearTimeout\<close>: a timer that has fired or was cleared stays as it is.\<close>

definition clearTimeout :: "timer_state \<Rightarrow> timer_state" where
  "clearTimeout t = (if t = Armed then Cleared else t)"

definition clear_timeoutTimer :: "nat \<Rightarrow> invocation list \<Rightarrow> invocation list" where
  "clear_timeoutTimer k xs =
     (if k < length xs
      then xs[k := (xs ! k)\<lparr> timeoutTimer := clearTimeout (timeoutTimer (xs ! k)) \<rparr>]
      else xs)"

definition clear_retryTimer :: "nat \<Rightarrow> retry list \<Rightarrow> retry list" where
  "clear_retryTimer r xs =
     (if r < length xs
      then xs[r := (xs ! r)\<lparr> retryTimer := clearTimeout (retryTimer (xs ! r)) \<rparr>]
      else xs)"

text \<open>\<open>this.onCompleteCallback?.(task)\<close> and \<open>this.onFailedCallback?.(task)\<close>.\<close>

definition notify :: "callback option \<Rightarrow> TaskId \<Rightarrow> State \<Rightarrow> State" where
  "notify cb tid s =
     (case cb of
        None \<Rightarrow> s
      | Some c \<Rightarrow>
          (case objects s tid of
             None \<Rightarrow> s
           | Some t \<Rightarrow> s\<lparr> notifications := notifications s @ [Notify c t] \<rparr>))"

subsection \<open>\<open>insertByPriority\<close>\<close>

text \<open>
  The scan of \<open>insertByPriority\<close>. \<open>task\<close> is \<open>this.tasks.get(id)!\<close>: when it is
  undefined, reading \<open>task.priority\<close> throws a TypeError (\<open>None\<close>), which happens at
  the first queue entry that has a record.
\<close>

fun insert_scan ::
  "(TaskId \<Rightarrow> Task option) \<Rightarrow> Task option \<Rightarrow> TaskId \<Rightarrow> TaskId list \<Rightarrow> TaskId list option"
where
  "insert_scan get task tid [] = Some [tid]"
| "insert_scan get task tid (q # qs) =
     (case get q of
        None \<Rightarrow> map_option ((#) q) (insert_scan get task tid qs)
      | Some existingTask \<Rightarrow>
          (case task of
             None \<Rightarrow> None
           | Some t \<Rightarrow>
               if priority t < priority existingTask then Some (tid # q # qs)
               else map_option ((#) q) (insert_scan get task tid qs)))"

definition insertByPriority :: "TaskId \<Rightarrow> State \<Rightarrow> State option" where
  "insertByPriority tid s =
     (case insert_scan (tasks_get s) (tasks_get s tid) tid (queue s) of
        None \<Rightarrow> None
      | Some q \<Rightarrow>
          Some (s\<lparr> queue := q, enqueued := enqueued s + 1,
                   enqueuedAt := (enqueuedAt s)(tid := enqueued s) \<rparr>))"

subsection \<open>\<open>executeTask\<close> up to its \<open>await\<close>, and \<open>processNext\<close>\<close>

definition executeTask :: "TaskId \<Rightarrow> nat \<Rightarrow> State \<Rightarrow> State" where
  "executeTask tid now s =
     (case tasks_get s tid of
        None \<Rightarrow> s
      | Some task \<Rightarrow>
          (case handlers s tid of
             None \<Rightarrow> s
           | Some h \<Rightarrow>
               s\<lparr> objects := (objects s)(tid \<mapsto>
                     task\<lparr> status := Running, startedAt := Some now,
                           attempts := attempts task + 1 \<rparr>),
                  running := insert tid (running s),
                  invocations := invocations s @
                    [\<lparr> inv_task = tid, inv_handler = h, timeout_ms = defaultTimeout s,
                       timedOut = False, timeoutTimer = Armed, settled = False \<rparr>],
                  timers := AList.update tid (length (invocations s)) (timers s) \<rparr>))"

function processNext_loop :: "nat \<Rightarrow> State \<Rightarrow> State" where
  "processNext_loop now s =
     (if int (card (running s)) < maxConcurrency s \<and> queue s \<noteq> [] then
        (let tid = hd (queue s); s1 = s\<lparr> queue := tl (queue s) \<rparr> in
         case tasks_get s1 tid of
           None \<Rightarrow> processNext_loop now s1
         | Some task \<Rightarrow>
             if status task \<noteq> Pending then processNext_loop now s1
             else processNext_loop now (executeTask tid now s1))
      else s)"
  by pat_completeness auto
termination
  by (relation "measure (\<lambda>(now, s). length (queue s))")
     (auto simp: executeTask_def split: option.splits)

declare processNext_loop.simps [simp del]

definition processNext :: "nat \<Rightarrow> State \<Rightarrow> State" where
  "processNext now s = (if paused s \<or> disposed s then s else processNext_loop now s)"

subsection \<open>\<open>scheduleRetry\<close> and the callback of its timer\<close>

definition scheduleRetry :: "TaskId \<Rightarrow> State \<Rightarrow> State" where
  "scheduleRetry tid s =
     (case tasks_get s tid of
        None \<Rightarrow> s
      | Some task \<Rightarrow>
          s\<lparr> objects := (objects s)(tid \<mapsto> task\<lparr> status := Pending \<rparr>),
             retries := retries s @
               [\<lparr> retry_task = tid,
                  delay = of_int (defaultRetryBaseDelay s) * 2 powi (attempts task - 1),
                  retryTimer = Armed \<rparr>],
             retryTimers := AList.update tid (length (retries s)) (retryTimers s) \<rparr>)"

text \<open>
  The retry timer \<open>r\<close> fires (it can only while it is armed). When
  \<open>insertByPriority\<close> throws, the callback ends there, after
  \<open>this.retryTimers.delete(id)\<close>.
\<close>

definition retry_fires :: "nat \<Rightarrow> nat \<Rightarrow> State \<Rightarrow> State" where
  "retry_fires r now s =
     (if r < length (retries s) \<and> retryTimer (retries s ! r) = Armed then
        (let tid = retry_task (retries s ! r);
             s1 = s\<lparr> retries := (retries s)[r := (retries s ! r)\<lparr> retryTimer := Fired \<rparr>],
                     retryTimers := AList.delete tid (retryTimers s) \<rparr>
         in case insertByPriority tid s1 of
              None \<Rightarrow> s1
            | Some s2 \<Rightarrow> processNext now s2)
      else s)"

subsection \<open>The two outcomes of an attempt\<close>

text \<open>The callback of the timeout timer of invocation \<open>k\<close>.\<close>

definition timeout_fires :: "nat \<Rightarrow> nat \<Rightarrow> State \<Rightarrow> State" where
  "timeout_fires k now s =
     (if k < length (invocations s) \<and> timeoutTimer (invocations s ! k) = Armed then
        (let tid = inv_task (invocations s ! k);
             s1 = s\<lparr> invocations := (invocations s)
                       [k := (invocations s ! k)\<lparr> timedOut := True, timeoutTimer := Fired \<rparr>],
                     running := running s - {tid} \<rparr>;
             s2 = modify_task tid (\<lambda>t. t\<lparr> status := Timed_out, completedAt := Some now \<rparr>) s1;
             s3 = (case objects s2 tid of
                     None \<Rightarrow> s2
                   | Some task \<Rightarrow>
                       if attempts task < maxRetries task then scheduleRetry tid s2
                       else notify (onFailedCallback s2) tid
                              (modify_task tid (\<lambda>t. t\<lparr> error := Some ''Task timed out'' \<rparr>) s2))
         in processNext now s3)
      else s)"

text \<open>
  The continuation of \<open>executeTask\<close> after \<open>await handler(task.data)\<close>, for invocation
  \<open>k\<close>; a promise settles once.
\<close>

definition settle :: "nat \<Rightarrow> outcome \<Rightarrow> nat \<Rightarrow> State \<Rightarrow> State" where
  "settle k out now s =
     (if k < length (invocations s) \<and> \<not> settled (invocations s ! k) then
        (let tid = inv_task (invocations s ! k);
             s0 = s\<lparr> invocations := (invocations s)[k := (invocations s ! k)\<lparr> settled := True \<rparr>] \<rparr>
         in if timedOut (invocations s ! k) then s0
            else
              (let s1 = s0\<lparr> invocations := clear_timeoutTimer k (invocations s0),
                            timers := AList.delete tid (timers s0) \<rparr>
               in case out of
                    Resolved v \<Rightarrow>
                      (let s2 = modify_task tid
                                  (\<lambda>t. t\<lparr> status := Completed, result := Some v,
                                          completedAt := Some now \<rparr>) s1;
                           s3 = s2\<lparr> running := running s2 - {tid} \<rparr>;
                           s4 = notify (onCompleteCallback s3) tid s3
                       in processNext now s4)
                  | Rejected e \<Rightarrow>
                      (let s2 = s1\<lparr> running := running s1 - {tid} \<rparr>;
                           s3 = modify_task tid (\<lambda>t. t\<lparr> error := Some e \<rparr>) s2;
                           s4 = (case objects s3 tid of
                                   None \<Rightarrow> s3
                                 | Some task \<Rightarrow>
                                     if attempts task < maxRetries task then scheduleRetry tid s3
                                     else notify (onFailedCallback s3) tid
                                            (modify_task tid
                                               (\<lambda>t. t\<lparr> status := Failed, completedAt := Some now \<rparr>)
                                               s3))
                       in processNext now s4)))
      else s)"

subsection \<open>\<open>enqueue\<close>\<close>

definition valid_priority :: "number_arg \<Rightarrow> bool" where
  "valid_priority p =
     (case p of Undefined \<Rightarrow> True | Integer n \<Rightarrow> 1 \<le> n \<and> n \<le> 5 | NotAnInteger \<Rightarrow> False)"

definition valid_maxRetries :: "number_arg \<Rightarrow> bool" where
  "valid_maxRetries m =
     (case m of Undefined \<Rightarrow> True | Integer n \<Rightarrow> 0 \<le> n | NotAnInteger \<Rightarrow> False)"

definition generateId :: "nat \<Rightarrow> State \<Rightarrow> TaskId \<times> State" where
  "generateId now s = ((now, idCounter s + 1), s\<lparr> idCounter := idCounter s + 1 \<rparr>)"

definition new_task :: "TaskId \<Rightarrow> TaskConfig \<Rightarrow> nat \<Rightarrow> State \<Rightarrow> Task" where
  "new_task tid config now s =
     \<lparr> task_id = tid, status = Pending,
       priority = (case cfg_priority config of Integer n \<Rightarrow> n | _ \<Rightarrow> 3),
       data = cfg_data config, result = None, error = None, attempts = 0,
       maxRetries = (case cfg_maxRetries config of Integer n \<Rightarrow> n | _ \<Rightarrow> defaultMaxRetries s),
       createdAt = now, startedAt = None, completedAt = None \<rparr>"

text \<open>
  \<open>enqueue\<close> returns the identifier or the error it throws, and the state it leaves.
\<close>

definition enqueue :: "TaskConfig \<Rightarrow> nat \<Rightarrow> State \<Rightarrow> (error + TaskId) \<times> State" where
  "enqueue config now s =
     (if disposed s then (Inl DisposedQueue, s)
      else case cfg_handler config of
        NotAFunction \<Rightarrow> (Inl HandlerNotFunction, s)
      | Function h \<Rightarrow>
          if \<not> valid_priority (cfg_priority config) then (Inl PriorityOutOfRange, s)
          else if \<not> valid_maxRetries (cfg_maxRetries config) then (Inl MaxRetriesInvalid, s)
          else
            (let (tid, s1) = generateId now s;
                 s2 = s1\<lparr> objects := (objects s1)(tid \<mapsto> new_task tid config now s1),
                          tasks := (if tid \<in> set (tasks s1) then tasks s1 else tasks s1 @ [tid]),
                          handlers := (handlers s1)(tid \<mapsto> h) \<rparr>
             in case insertByPriority tid s2 of
                  None \<Rightarrow> (Inl TypeError, s2)
                | Some s3 \<Rightarrow> (Inr tid, processNext now s3)))"

subsection \<open>Lifecycle controls and callback registration\<close>

definition pause :: "State \<Rightarrow> State" where
  "pause s = s\<lparr> paused := True \<rparr>"

definition resume :: "nat \<Rightarrow> State \<Rightarrow> State" where
  "resume now s = processNext now (s\<lparr> paused := False \<rparr>)"

text \<open>The body of the second loop of \<open>clear\<close>, for one identifier of \<open>toRemove\<close>.\<close>

definition clear_one :: "TaskId \<Rightarrow> State \<Rightarrow> State" where
  "clear_one tid s =
     (let s1 = s\<lparr> queue := filter (\<lambda>qId. qId \<noteq> tid) (queue s),
                  tasks := removeAll tid (tasks s),
                  handlers := (handlers s)(tid := None) \<rparr>
      in case map_of (retryTimers s1) tid of
           None \<Rightarrow> s1
         | Some timer \<Rightarrow>
             s1\<lparr> retries := clear_retryTimer timer (retries s1),
                 retryTimers := AList.delete tid (retryTimers s1) \<rparr>)"

definition toRemove :: "State \<Rightarrow> TaskId list" where
  "toRemove s =
     filter (\<lambda>tid. case tasks_get s tid of None \<Rightarrow> False | Some task \<Rightarrow> status task = Pending)
       (queue s)"

definition clear :: "State \<Rightarrow> State" where
  "clear s = fold clear_one (toRemove s) s"

definition dispose :: "State \<Rightarrow> State" where
  "dispose s =
     s\<lparr> disposed := True, paused := True,
        invocations := fold clear_timeoutTimer (map snd (timers s)) (invocations s),
        retries := fold clear_retryTimer (map snd (retryTimers s)) (retries s),
        timers := [], retryTimers := [], queue := [] \<rparr>"

definition onTaskComplete :: "callback \<Rightarrow> State \<Rightarrow> State" where
  "onTaskComplete cb s = s\<lparr> onCompleteCallback := Some cb \<rparr>"

definition onTaskFailed :: "callback \<Rightarrow> State \<Rightarrow> State" where
  "onTaskFailed cb s = s\<lparr> onFailedCallback := Some cb \<rparr>"

subsection \<open>Runs of the queue\<close>

text \<open>
  An event is a call of a public method, a timer that fires or a promise that
  settles; each comes with the reading of the clock (\<open>Date.now()\<close>) at that moment.
  A timer that is not armed cannot fire and a settled promise cannot settle again:
  such events leave the state as it is.
\<close>

datatype event =
    Enqueue TaskConfig | Pause | Resume | Clear | Dispose
  | OnTaskComplete callback | OnTaskFailed callback
  | TimeoutFires nat | Settles nat outcome | RetryFires nat

fun step :: "nat \<times> event \<Rightarrow> State \<Rightarrow> State" where
  "step (now, Enqueue config) s = snd (enqueue config now s)"
| "step (now, Pause) s = pause s"
| "step (now, Resume) s = resume now s"
| "step (now, Clear) s = clear s"
| "step (now, Dispose) s = dispose s"
| "step (now, OnTaskComplete cb) s = onTaskComplete cb s"
| "step (now, OnTaskFailed cb) s = onTaskFailed cb s"
| "step (now, TimeoutFires k) s = timeout_fires k now s"
| "step (now, Settles k out) s = settle k out now s"
| "step (now, RetryFires r) s = retry_fires r now s"

definition run :: "(nat \<times> event) list \<Rightarrow> State \<Rightarrow> State" where
  "run evs s = fold step evs s"


definition loop_frame :: "State \<Rightarrow> State \<Rightarrow> bool" where
  "loop_frame s s' \<longleftrightarrow>
     tasks s' = tasks s \<and>
     retryTimers s' = retryTimers s \<and>
     handlers s' = handlers s \<and>
     paused s' = paused s \<and>
     disposed s' = disposed s \<and>
     idCounter s' = idCounter s \<and>
     maxConcurrency s' = maxConcurrency s \<and>
     defaultTimeout s' = defaultTimeout s \<and>
     defaultMaxRetries s' = defaultMaxRetries s \<and>
     defaultRetryBaseDelay s' = defaultRetryBaseDelay s \<and>
     onCompleteCallback s' = onCompleteCallback s \<and>
     onFailedCallback s' = onFailedCallback s \<and>
     retries s' = retries s \<and>
     notifications s' = notifications s \<and>
     enqueued s' = enqueued s \<and>
     enqueuedAt s' = enqueuedAt s"

definition example_options :: QueueOptions where
  "example_options =
     \<lparr> opt_maxConcurrency = Some 2, opt_defaultTimeout = None,
       opt_defaultMaxRetries = None, opt_defaultRetryBaseDelay = Some 100 \<rparr>"

definition example_queue :: State where
  "example_queue =
     \<lparr> objects = (\<lambda>_. None), tasks = [], queue = [], running = {},
       timers = [], retryTimers = [], handlers = (\<lambda>_. None),
       paused = False, disposed = False, idCounter = 0,
       maxConcurrency = 2, defaultTimeout = 30000, defaultMaxRetries = 3,
       defaultRetryBaseDelay = 100,
       onCompleteCallback = None, onFailedCallback = None,
       invocations = [], retries = [], notifications = [],
       enqueued = 0, enqueuedAt = (\<lambda>_. 0) \<rparr>"

definition example_config :: "int \<Rightarrow> int \<Rightarrow> TaskConfig" where
  "example_config p m =
     \<lparr> cfg_handler = Function 7, cfg_data = ''payload'', cfg_priority = Integer p,
       cfg_maxRetries = Integer m, cfg_retryBaseDelay = Integer 5,
       cfg_timeout = Integer 50 \<rparr>"


definition default_timeouts :: "State \<Rightarrow> bool" where
  "default_timeouts s \<longleftrightarrow> list_all (\<lambda>i. timeout_ms i = defaultTimeout s) (invocations s)"

definition backoff :: "State \<Rightarrow> Task \<Rightarrow> rat" where
  "backoff s task = of_int (defaultRetryBaseDelay s) * 2 powi (attempts task - 1)"

definition retries_extended :: "State \<Rightarrow> State \<Rightarrow> bool" where
  "retries_extended s s' \<longleftrightarrow>
     length (retries s) \<le> length (retries s') \<and>
     (\<forall>r < length (retries s').
        if r < length (retries s)
        then retry_task (retries s' ! r) = retry_task (retries s ! r) \<and>
             delay (retries s' ! r) = delay (retries s ! r)
        else \<exists>task. objects s (retry_task (retries s' ! r)) = Some task \<and>
               delay (retries s' ! r) = backoff s task)"

definition one_failure :: "(nat \<times> event) list" where
  "one_failure = [(0, Enqueue (example_config 3 3)), (1, Settles 0 (Rejected ''boom''))]"

definition invocations_grow :: "State \<Rightarrow> State \<Rightarrow> bool" where
  "invocations_grow s s' \<longleftrightarrow>
     length (invocations s) \<le> length (invocations s') \<and>
     (\<forall>j < length (invocations s).
        inv_task (invocations s' ! j) = inv_task (invocations s ! j) \<and>
        (timedOut (invocations s ! j) \<longrightarrow> timedOut (invocations s' ! j)) \<and>
        (settled (invocations s ! j) \<longrightarrow> settled (invocations s' ! j)))"

definition timeout_then_retry :: "(nat \<times> event) list" where
  "timeout_then_retry = [(40000, RetryFires 0)]"

definition task_running :: State where
  "task_running = run [(0, OnTaskComplete 1), (0, OnTaskFailed 2), (0, Enqueue (example_config 3 3))] example_queue"



definition always_failing :: "(nat \<times> event) list" where
  "always_failing =
     [(0, Enqueue (example_config 3 3)),
      (10, Settles 0 (Rejected ''boom'')), (110, RetryFires 0),
      (120, Settles 1 (Rejected ''boom'')), (320, RetryFires 1),
      (330, Settles 2 (Rejected ''boom''))]"

definition settled_after_dispose :: State where
  "settled_after_dispose = settle 0 (Resolved ''late'') 2 (dispose task_running)"

definition last_attempt_running :: State where
  "last_attempt_running =
     run [(0, OnTaskComplete 1), (0, OnTaskFailed 2), (0, Enqueue (example_config 3 1))]
       example_queue"

definition last_attempt_task :: Task where
  "last_attempt_task =
     \<lparr> task_id = (0, 1), status = Running, priority = 3, data = ''payload'',
       result = None, error = None, attempts = 1, maxRetries = 1, createdAt = 0,
       startedAt = Some 0, completedAt = None \<rparr>"

definition in_backoff :: State where
  "in_backoff = run one_failure example_queue"

definition wf_ids :: "State \<Rightarrow> bool" where
  "wf_ids s \<longleftrightarrow>
     (\<forall>tid \<in> dom (objects s). snd tid \<le> idCounter s) \<and>
     set (tasks s) \<subseteq> dom (objects s) \<and>
     set (queue s) \<subseteq> dom (objects s) \<and>
     set (map inv_task (invocations s)) \<subseteq> dom (objects s) \<and>
     set (map retry_task (retries s)) \<subseteq> dom (objects s)"


definition registered :: "TaskConfig \<Rightarrow> nat \<Rightarrow> State \<Rightarrow> State" where
  "registered config now s =
     (let tid = (now, idCounter s + 1) in
      s\<lparr> idCounter := idCounter s + 1,
         objects := (objects s)(tid \<mapsto> new_task tid config now s),
         tasks := (if tid \<in> set (tasks s) then tasks s else tasks s @ [tid]),
         handlers := (handlers s)(tid := (case cfg_handler config of Function h \<Rightarrow> Some h
                                           | NotAFunction \<Rightarrow> None)) \<rparr>)"



definition active :: "invocation \<Rightarrow> bool" where
  "active i \<longleftrightarrow> \<not> timedOut i \<and> \<not> settled i"

definition armed_active :: "State \<Rightarrow> bool" where
  "armed_active s \<longleftrightarrow>
     (\<forall>k < length (invocations s). timeoutTimer (invocations s ! k) = Armed \<longrightarrow>
        active (invocations s ! k))"

definition active_tasks :: "invocation list \<Rightarrow> TaskId multiset" where
  "active_tasks xs = image_mset inv_task (filter_mset active (mset xs))"

definition armed_tasks :: "retry list \<Rightarrow> TaskId multiset" where
  "armed_tasks rs = image_mset retry_task (filter_mset (\<lambda>r. retryTimer r = Armed) (mset rs))"

definition tokens :: "State \<Rightarrow> TaskId multiset" where
  "tokens s = mset (queue s) + active_tasks (invocations s) + armed_tasks (retries s)"


definition present :: "State \<Rightarrow> bool" where
  "present s \<longleftrightarrow>
     set (queue s) \<subseteq> set (tasks s) \<and> set_mset (armed_tasks (retries s)) \<subseteq> set (tasks s)"

definition prio :: "State \<Rightarrow> TaskId \<Rightarrow> int option" where
  "prio s tid = map_option priority (tasks_get s tid)"




definition obj_prio :: "State \<Rightarrow> TaskId \<Rightarrow> int option" where
  "obj_prio s tid = map_option priority (objects s tid)"







section \<open>Properties\<close>

lemma tasks_get_queue_upd [simp]: "tasks_get (s\<lparr> queue := q \<rparr>) = tasks_get s"
  by (rule ext) (simp add: tasks_get_def)

lemma processNext_loop_rule:
  assumes start: "P s"
    and skip: "\<And>s. P s \<Longrightarrow> queue s \<noteq> [] \<Longrightarrow>
        (case tasks_get s (hd (queue s)) of None \<Rightarrow> True | Some task \<Rightarrow> status task \<noteq> Pending) \<Longrightarrow>
        P (s\<lparr> queue := tl (queue s) \<rparr>)"
    and exec: "\<And>s task. P s \<Longrightarrow> queue s \<noteq> [] \<Longrightarrow> int (card (running s)) < maxConcurrency s \<Longrightarrow>
        tasks_get s (hd (queue s)) = Some task \<Longrightarrow> status task = Pending \<Longrightarrow>
        P (executeTask (hd (queue s)) now (s\<lparr> queue := tl (queue s) \<rparr>))"
  shows "P (processNext_loop now s)"
proof -
  have "n = now \<Longrightarrow> P s \<Longrightarrow> P (processNext_loop n s)" for n s
  proof (induction n s rule: processNext_loop.induct)
    case (1 n s)
    note Ps = \<open>P s\<close>
    show ?case
    proof (cases "int (card (running s)) < maxConcurrency s \<and> queue s \<noteq> []")
      case False
      then have "processNext_loop n s = s" by (subst processNext_loop.simps) auto
      then show ?thesis using Ps by simp
    next
      case True
      let ?s1 = "s\<lparr> queue := tl (queue s) \<rparr>"
      show ?thesis
      proof (cases "tasks_get s (hd (queue s))")
        case None
        have "P ?s1" by (rule skip [OF Ps]) (use True None in auto)
        then have "P (processNext_loop n ?s1)" using 1(1) [OF True refl refl] None 1(4) by simp
        then show ?thesis using True None by (subst processNext_loop.simps) simp
      next
        case (Some task)
        show ?thesis
        proof (cases "status task = Pending")
          case False
          have "P ?s1" by (rule skip [OF Ps]) (use True Some False in auto)
          then have "P (processNext_loop n ?s1)" using 1(2) [OF True refl refl] Some False 1(4) by simp
          then show ?thesis using True Some False by (subst processNext_loop.simps) simp
        next
          case pend: True
          have "P (executeTask (hd (queue s)) now ?s1)"
            by (rule exec [OF Ps _ _ Some pend]) (use True in auto)
          then have "P (processNext_loop n (executeTask (hd (queue s)) n ?s1))"
            using 1(3) [OF True refl refl] Some pend 1(4) by simp
          then show ?thesis using True Some pend by (subst processNext_loop.simps) simp
        qed
      qed
    qed
  qed
  then show ?thesis using start by simp
qed

lemma modify_task_frame [simp]:
  "tasks (modify_task tid f s) = tasks s"
  "queue (modify_task tid f s) = queue s"
  "running (modify_task tid f s) = running s"
  "timers (modify_task tid f s) = timers s"
  "retryTimers (modify_task tid f s) = retryTimers s"
  "handlers (modify_task tid f s) = handlers s"
  "paused (modify_task tid f s) = paused s"
  "disposed (modify_task tid f s) = disposed s"
  "idCounter (modify_task tid f s) = idCounter s"
  "maxConcurrency (modify_task tid f s) = maxConcurrency s"
  "defaultTimeout (modify_task tid f s) = defaultTimeout s"
  "defaultMaxRetries (modify_task tid f s) = defaultMaxRetries s"
  "defaultRetryBaseDelay (modify_task tid f s) = defaultRetryBaseDelay s"
  "onCompleteCallback (modify_task tid f s) = onCompleteCallback s"
  "onFailedCallback (modify_task tid f s) = onFailedCallback s"
  "invocations (modify_task tid f s) = invocations s"
  "retries (modify_task tid f s) = retries s"
  "notifications (modify_task tid f s) = notifications s"
  "enqueued (modify_task tid f s) = enqueued s"
  "enqueuedAt (modify_task tid f s) = enqueuedAt s"
  by (simp_all add: modify_task_def split: option.splits)

lemma notify_frame [simp]:
  "objects (notify cb tid s) = objects s"
  "tasks (notify cb tid s) = tasks s"
  "queue (notify cb tid s) = queue s"
  "running (notify cb tid s) = running s"
  "timers (notify cb tid s) = timers s"
  "retryTimers (notify cb tid s) = retryTimers s"
  "handlers (notify cb tid s) = handlers s"
  "paused (notify cb tid s) = paused s"
  "disposed (notify cb tid s) = disposed s"
  "idCounter (notify cb tid s) = idCounter s"
  "maxConcurrency (notify cb tid s) = maxConcurrency s"
  "defaultTimeout (notify cb tid s) = defaultTimeout s"
  "defaultMaxRetries (notify cb tid s) = defaultMaxRetries s"
  "defaultRetryBaseDelay (notify cb tid s) = defaultRetryBaseDelay s"
  "onCompleteCallback (notify cb tid s) = onCompleteCallback s"
  "onFailedCallback (notify cb tid s) = onFailedCallback s"
  "invocations (notify cb tid s) = invocations s"
  "retries (notify cb tid s) = retries s"
  "enqueued (notify cb tid s) = enqueued s"
  "enqueuedAt (notify cb tid s) = enqueuedAt s"
  by (simp_all add: notify_def split: option.splits)

lemma scheduleRetry_frame [simp]:
  "tasks (scheduleRetry tid s) = tasks s"
  "queue (scheduleRetry tid s) = queue s"
  "running (scheduleRetry tid s) = running s"
  "timers (scheduleRetry tid s) = timers s"
  "handlers (scheduleRetry tid s) = handlers s"
  "paused (scheduleRetry tid s) = paused s"
  "disposed (scheduleRetry tid s) = disposed s"
  "idCounter (scheduleRetry tid s) = idCounter s"
  "maxConcurrency (scheduleRetry tid s) = maxConcurrency s"
  "defaultTimeout (scheduleRetry tid s) = defaultTimeout s"
  "defaultMaxRetries (scheduleRetry tid s) = defaultMaxRetries s"
  "defaultRetryBaseDelay (scheduleRetry tid s) = defaultRetryBaseDelay s"
  "onCompleteCallback (scheduleRetry tid s) = onCompleteCallback s"
  "onFailedCallback (scheduleRetry tid s) = onFailedCallback s"
  "invocations (scheduleRetry tid s) = invocations s"
  "notifications (scheduleRetry tid s) = notifications s"
  "enqueued (scheduleRetry tid s) = enqueued s"
  "enqueuedAt (scheduleRetry tid s) = enqueuedAt s"
  by (simp_all add: scheduleRetry_def split: option.splits)

lemma executeTask_frame [simp]:
  "tasks (executeTask tid now s) = tasks s"
  "queue (executeTask tid now s) = queue s"
  "retryTimers (executeTask tid now s) = retryTimers s"
  "handlers (executeTask tid now s) = handlers s"
  "paused (executeTask tid now s) = paused s"
  "disposed (executeTask tid now s) = disposed s"
  "idCounter (executeTask tid now s) = idCounter s"
  "maxConcurrency (executeTask tid now s) = maxConcurrency s"
  "defaultTimeout (executeTask tid now s) = defaultTimeout s"
  "defaultMaxRetries (executeTask tid now s) = defaultMaxRetries s"
  "defaultRetryBaseDelay (executeTask tid now s) = defaultRetryBaseDelay s"
  "onCompleteCallback (executeTask tid now s) = onCompleteCallback s"
  "onFailedCallback (executeTask tid now s) = onFailedCallback s"
  "retries (executeTask tid now s) = retries s"
  "notifications (executeTask tid now s) = notifications s"
  "enqueued (executeTask tid now s) = enqueued s"
  "enqueuedAt (executeTask tid now s) = enqueuedAt s"
  by (simp_all add: executeTask_def split: option.splits)

lemma processNext_loop_loop_frame: "loop_frame s (processNext_loop now s)"
  by (rule processNext_loop_rule) (simp_all add: loop_frame_def)

lemma processNext_loop_frame [simp]:
  "tasks (processNext_loop now s) = tasks s"
  "retryTimers (processNext_loop now s) = retryTimers s"
  "handlers (processNext_loop now s) = handlers s"
  "paused (processNext_loop now s) = paused s"
  "disposed (processNext_loop now s) = disposed s"
  "idCounter (processNext_loop now s) = idCounter s"
  "maxConcurrency (processNext_loop now s) = maxConcurrency s"
  "defaultTimeout (processNext_loop now s) = defaultTimeout s"
  "defaultMaxRetries (processNext_loop now s) = defaultMaxRetries s"
  "defaultRetryBaseDelay (processNext_loop now s) = defaultRetryBaseDelay s"
  "onCompleteCallback (processNext_loop now s) = onCompleteCallback s"
  "onFailedCallback (processNext_loop now s) = onFailedCallback s"
  "retries (processNext_loop now s) = retries s"
  "notifications (processNext_loop now s) = notifications s"
  "enqueued (processNext_loop now s) = enqueued s"
  "enqueuedAt (processNext_loop now s) = enqueuedAt s"
  using processNext_loop_loop_frame [of s now] by (simp_all add: loop_frame_def)

lemma processNext_frame [simp]:
  "tasks (processNext now s) = tasks s"
  "retryTimers (processNext now s) = retryTimers s"
  "handlers (processNext now s) = handlers s"
  "paused (processNext now s) = paused s"
  "disposed (processNext now s) = disposed s"
  "idCounter (processNext now s) = idCounter s"
  "maxConcurrency (processNext now s) = maxConcurrency s"
  "defaultTimeout (processNext now s) = defaultTimeout s"
  "defaultMaxRetries (processNext now s) = defaultMaxRetries s"
  "defaultRetryBaseDelay (processNext now s) = defaultRetryBaseDelay s"
  "onCompleteCallback (processNext now s) = onCompleteCallback s"
  "onFailedCallback (processNext now s) = onFailedCallback s"
  "retries (processNext now s) = retries s"
  "notifications (processNext now s) = notifications s"
  "enqueued (processNext now s) = enqueued s"
  "enqueuedAt (processNext now s) = enqueuedAt s"
  by (simp_all add: processNext_def)

lemma run_invariant:
  assumes "P s" and "\<And>ev s. P s \<Longrightarrow> P (step ev s)"
  shows "P (run evs s)"
  unfolding run_def using assms(1)
  by (induction evs arbitrary: s) (simp_all add: assms(2))






lemma insertByPriority_Some:
  "insertByPriority tid s = Some s' \<longleftrightarrow>
     (\<exists>q. insert_scan (tasks_get s) (tasks_get s tid) tid (queue s) = Some q \<and>
          s' = s\<lparr> queue := q, enqueued := enqueued s + 1,
                    enqueuedAt := (enqueuedAt s)(tid := enqueued s) \<rparr>)"
  by (auto simp: insertByPriority_def split: option.splits)

lemma clear_one_frame [simp]:
  "objects (clear_one tid s) = objects s"
  "running (clear_one tid s) = running s"
  "timers (clear_one tid s) = timers s"
  "paused (clear_one tid s) = paused s"
  "disposed (clear_one tid s) = disposed s"
  "idCounter (clear_one tid s) = idCounter s"
  "maxConcurrency (clear_one tid s) = maxConcurrency s"
  "defaultTimeout (clear_one tid s) = defaultTimeout s"
  "defaultMaxRetries (clear_one tid s) = defaultMaxRetries s"
  "defaultRetryBaseDelay (clear_one tid s) = defaultRetryBaseDelay s"
  "onCompleteCallback (clear_one tid s) = onCompleteCallback s"
  "onFailedCallback (clear_one tid s) = onFailedCallback s"
  "invocations (clear_one tid s) = invocations s"
  "notifications (clear_one tid s) = notifications s"
  "enqueued (clear_one tid s) = enqueued s"
  "enqueuedAt (clear_one tid s) = enqueuedAt s"
  by (simp_all add: clear_one_def Let_def split: option.splits)

lemma fold_clear_one_frame [simp]:
  "objects (fold clear_one xs s) = objects s"
  "running (fold clear_one xs s) = running s"
  "timers (fold clear_one xs s) = timers s"
  "paused (fold clear_one xs s) = paused s"
  "disposed (fold clear_one xs s) = disposed s"
  "idCounter (fold clear_one xs s) = idCounter s"
  "maxConcurrency (fold clear_one xs s) = maxConcurrency s"
  "defaultTimeout (fold clear_one xs s) = defaultTimeout s"
  "defaultMaxRetries (fold clear_one xs s) = defaultMaxRetries s"
  "defaultRetryBaseDelay (fold clear_one xs s) = defaultRetryBaseDelay s"
  "onCompleteCallback (fold clear_one xs s) = onCompleteCallback s"
  "onFailedCallback (fold clear_one xs s) = onFailedCallback s"
  "invocations (fold clear_one xs s) = invocations s"
  "notifications (fold clear_one xs s) = notifications s"
  "enqueued (fold clear_one xs s) = enqueued s"
  "enqueuedAt (fold clear_one xs s) = enqueuedAt s"
  by (induction xs arbitrary: s; simp)+

lemma clear_frame [simp]:
  "objects (clear s) = objects s"
  "running (clear s) = running s"
  "timers (clear s) = timers s"
  "paused (clear s) = paused s"
  "disposed (clear s) = disposed s"
  "idCounter (clear s) = idCounter s"
  "maxConcurrency (clear s) = maxConcurrency s"
  "defaultTimeout (clear s) = defaultTimeout s"
  "defaultMaxRetries (clear s) = defaultMaxRetries s"
  "defaultRetryBaseDelay (clear s) = defaultRetryBaseDelay s"
  "onCompleteCallback (clear s) = onCompleteCallback s"
  "onFailedCallback (clear s) = onFailedCallback s"
  "invocations (clear s) = invocations s"
  "notifications (clear s) = notifications s"
  "enqueued (clear s) = enqueued s"
  "enqueuedAt (clear s) = enqueuedAt s"
  by (simp_all add: clear_def)






lemma step_config [simp]:
  "maxConcurrency (step ev s) = maxConcurrency s"
  "defaultTimeout (step ev s) = defaultTimeout s"
  "defaultMaxRetries (step ev s) = defaultMaxRetries s"
  "defaultRetryBaseDelay (step ev s) = defaultRetryBaseDelay s"
proof -
  obtain now e where ev: "ev = (now, e)" by (cases ev)
  have "maxConcurrency (step ev s) = maxConcurrency s \<and>
        defaultTimeout (step ev s) = defaultTimeout s \<and>
        defaultMaxRetries (step ev s) = defaultMaxRetries s \<and>
        defaultRetryBaseDelay (step ev s) = defaultRetryBaseDelay s"
    unfolding ev
    by (cases e)
       (auto simp: enqueue_def generateId_def pause_def resume_def dispose_def
              onTaskComplete_def onTaskFailed_def timeout_fires_def settle_def retry_fires_def
              Let_def insertByPriority_Some
          split: option.splits handler_arg.splits outcome.splits)
  then show "maxConcurrency (step ev s) = maxConcurrency s"
    "defaultTimeout (step ev s) = defaultTimeout s"
    "defaultMaxRetries (step ev s) = defaultMaxRetries s"
    "defaultRetryBaseDelay (step ev s) = defaultRetryBaseDelay s"
    by simp_all
qed

lemma run_config [simp]:
  "maxConcurrency (run evs s) = maxConcurrency s"
  "defaultTimeout (run evs s) = defaultTimeout s"
  "defaultMaxRetries (run evs s) = defaultMaxRetries s"
  "defaultRetryBaseDelay (run evs s) = defaultRetryBaseDelay s"
  unfolding run_def by (induction evs arbitrary: s; simp)+

lemma processNext_idle:
  "paused s \<or> disposed s \<or> \<not> int (card (running s)) < maxConcurrency s \<Longrightarrow>
   processNext now s = s"
  by (auto simp: processNext_def processNext_loop.simps)

lemma example_queue_new: "TaskQueue_new example_options = Inr example_queue"
  by (simp add: TaskQueue_new_def example_options_def example_queue_def)


lemmas example_defs =
  run_def example_queue_def example_config_def enqueue_def generateId_def
  valid_priority_def valid_maxRetries_def new_task_def insertByPriority_def tasks_get_def
  processNext_def processNext_loop.simps executeTask_def Let_def



lemma list_all_update:
  "list_all P xs \<Longrightarrow> (k < length xs \<Longrightarrow> P x) \<Longrightarrow> list_all P (xs[k := x])"
  by (cases "k < length xs") (auto simp: list_all_length nth_list_update)

lemma list_all_clear_timeoutTimer:
  "list_all (\<lambda>i. timeout_ms i = d) xs \<Longrightarrow>
   list_all (\<lambda>i. timeout_ms i = d) (clear_timeoutTimer k xs)"
  by (auto simp: clear_timeoutTimer_def list_all_length nth_list_update)

lemma list_all_fold_clear_timeoutTimer:
  "list_all (\<lambda>i. timeout_ms i = d) xs \<Longrightarrow>
   list_all (\<lambda>i. timeout_ms i = d) (fold clear_timeoutTimer ks xs)"
  by (induction ks arbitrary: xs) (simp_all add: list_all_clear_timeoutTimer)

lemma default_timeouts_processNext:
  "default_timeouts s \<Longrightarrow> default_timeouts (processNext now s)"
proof -
  assume d: "default_timeouts s"
  have "default_timeouts (processNext_loop now s)"
    by (rule processNext_loop_rule [where P = default_timeouts])
       (use d in \<open>auto simp: default_timeouts_def executeTask_def split: option.splits\<close>)
  then show ?thesis using d by (simp add: processNext_def)
qed

lemma default_timeouts_same:
  "default_timeouts s \<Longrightarrow> invocations s' = invocations s \<Longrightarrow>
   defaultTimeout s' = defaultTimeout s \<Longrightarrow> default_timeouts s'"
  by (simp add: default_timeouts_def)

lemma default_timeouts_update:
  "default_timeouts s \<Longrightarrow> invocations s' = (invocations s)[k := i] \<Longrightarrow>
   timeout_ms i = timeout_ms (invocations s ! k) \<Longrightarrow>
   defaultTimeout s' = defaultTimeout s \<Longrightarrow> default_timeouts s'"
  by (cases "k < length (invocations s)")
     (auto simp: default_timeouts_def list_all_length nth_list_update)

lemma default_timeouts_clear:
  "default_timeouts s \<Longrightarrow> invocations s' = clear_timeoutTimer k ((invocations s)[k := i]) \<Longrightarrow>
   timeout_ms i = timeout_ms (invocations s ! k) \<Longrightarrow>
   defaultTimeout s' = defaultTimeout s \<Longrightarrow> default_timeouts s'"
  by (cases "k < length (invocations s)")
     (auto simp: default_timeouts_def clear_timeoutTimer_def list_all_length nth_list_update)

lemma default_timeouts_step:
  "default_timeouts s \<Longrightarrow> default_timeouts (step ev s)"
proof -
  assume d: "default_timeouts s"
  obtain now e where ev: "ev = (now, e)" by (cases ev)
  show ?thesis
  proof (cases e)
    case (Enqueue config)
    then show ?thesis using d unfolding ev
      by (auto simp: enqueue_def generateId_def Let_def insertByPriority_Some
               intro!: default_timeouts_processNext elim: default_timeouts_same
               split: option.splits handler_arg.splits)
  next
    case Resume
    then show ?thesis using d unfolding ev
      by (auto simp: resume_def intro!: default_timeouts_processNext elim: default_timeouts_same)
  next
    case Dispose
    then show ?thesis using d unfolding ev
      by (simp add: dispose_def default_timeouts_def list_all_fold_clear_timeoutTimer)
  next
    case (TimeoutFires k)
    then show ?thesis using d unfolding ev
      by (auto simp: timeout_fires_def Let_def
               intro!: default_timeouts_processNext
               elim: default_timeouts_same default_timeouts_update
               split: option.splits)
  next
    case (Settles k out)
    then show ?thesis using d unfolding ev
      by (auto simp: settle_def Let_def
               intro!: default_timeouts_processNext
               elim: default_timeouts_same default_timeouts_update default_timeouts_clear
               split: option.splits outcome.splits)
  next
    case (RetryFires r)
    then show ?thesis using d unfolding ev
      by (auto simp: retry_fires_def Let_def insertByPriority_Some
               intro!: default_timeouts_processNext elim: default_timeouts_same
               split: option.splits)
  qed (use d in \<open>auto simp: ev pause_def onTaskComplete_def onTaskFailed_def
                       elim: default_timeouts_same\<close>)
qed

text \<open>
  C2 as the claim states it fails: the task of \<open>example_config\<close> asks for a timeout of
  50, and its timer is armed with the default of the queue, 30000.
\<close>

theorem timeout_override_counterexample:
  "cfg_timeout (example_config 3 3) = Integer 50 \<and>
   map timeout_ms (invocations (run [(0, Enqueue (example_config 3 3))] example_queue)) = [30000] \<and>
   map timeout_ms (invocations (run [(0, Enqueue (example_config 3 3))] example_queue)) \<noteq> [50]"
  by (simp add: example_defs)

text \<open>
  C2, amended. Every timeout timer armed in a run of the queue has the default timeout
  of the queue as its duration, and \<open>enqueue\<close> does the same whatever the \<open>timeout\<close>
  field of its argument is.
\<close>

theorem timeout_is_default:
  "(TaskQueue_new options = Inr s0 \<longrightarrow>
      (\<forall>i \<in> set (invocations (run evs s0)). timeout_ms i = defaultTimeout s0)) \<and>
   enqueue (config\<lparr> cfg_timeout := x \<rparr>) now s = enqueue config now s"
proof (intro conjI impI)
  assume new: "TaskQueue_new options = Inr s0"
  then have "default_timeouts s0"
    by (auto simp: TaskQueue_new_def default_timeouts_def Let_def split: if_splits)
  then have "default_timeouts (run evs s0)"
    by (rule run_invariant) (rule default_timeouts_step)
  then show "\<forall>i \<in> set (invocations (run evs s0)). timeout_ms i = defaultTimeout s0"
    by (simp add: default_timeouts_def list_all_iff)
next
  show "enqueue (config\<lparr> cfg_timeout := x \<rparr>) now s = enqueue config now s"
    by (simp add: enqueue_def new_task_def split: handler_arg.splits)
qed

theorem timeout_is_default_witness:
  "TaskQueue_new example_options = Inr example_queue \<and>
   length (invocations (run [(0, Enqueue (example_config 3 3))] example_queue)) = 1 \<and>
   timeout_ms (invocations (run [(0, Enqueue (example_config 3 3))] example_queue) ! 0) =
     defaultTimeout example_queue \<and>
   defaultTimeout example_queue = 30000"
proof -
  have len: "length (invocations (run [(0, Enqueue (example_config 3 3))] example_queue)) = 1"
    by (simp add: example_defs)
  then have "invocations (run [(0, Enqueue (example_config 3 3))] example_queue) ! 0
      \<in> set (invocations (run [(0, Enqueue (example_config 3 3))] example_queue))"
    by (intro nth_mem) simp
  moreover have "defaultTimeout example_queue = 30000"
    by (simp add: example_queue_def)
  ultimately show ?thesis
    using timeout_is_default [of example_options example_queue "[(0, Enqueue (example_config 3 3))]"]
      example_queue_new len
    by simp
qed

lemma retries_extended_same:
  "map retry_task (retries s') = map retry_task (retries s) \<Longrightarrow>
   map delay (retries s') = map delay (retries s) \<Longrightarrow> retries_extended s s'"
  unfolding retries_extended_def
  by (metis length_map nth_map order_refl)

lemma clear_retryTimer_maps [simp]:
  "map retry_task (clear_retryTimer r xs) = map retry_task xs"
  "map delay (clear_retryTimer r xs) = map delay xs"
  by (simp_all add: clear_retryTimer_def map_update list_update_same_conv)

lemma fold_clear_retryTimer_maps [simp]:
  "map retry_task (fold clear_retryTimer rs xs) = map retry_task xs"
  "map delay (fold clear_retryTimer rs xs) = map delay xs"
  by (induction rs arbitrary: xs; simp)+

lemma clear_one_retries_maps [simp]:
  "map retry_task (retries (clear_one tid s)) = map retry_task (retries s)"
  "map delay (retries (clear_one tid s)) = map delay (retries s)"
  by (simp_all add: clear_one_def Let_def split: option.splits)

lemma clear_retries_maps [simp]:
  "map retry_task (retries (clear s)) = map retry_task (retries s)"
  "map delay (retries (clear s)) = map delay (retries s)"
proof -
  have "map retry_task (retries (fold clear_one xs s)) = map retry_task (retries s) \<and>
        map delay (retries (fold clear_one xs s)) = map delay (retries s)" for xs
    by (induction xs arbitrary: s) simp_all
  then show "map retry_task (retries (clear s)) = map retry_task (retries s)"
    and "map delay (retries (clear s)) = map delay (retries s)"
    by (simp_all add: clear_def)
qed

lemma scheduleRetry_retries:
  "retries (scheduleRetry tid s) =
     (case tasks_get s tid of
        None \<Rightarrow> retries s
      | Some task \<Rightarrow> retries s @ [\<lparr> retry_task = tid, delay = backoff s task, retryTimer = Armed \<rparr>])"
  by (simp add: scheduleRetry_def backoff_def split: option.splits)

lemma objects_modify_task [simp]:
  "objects (modify_task tid f s) tid' =
     (if tid' = tid then map_option f (objects s tid) else objects s tid')"
  by (simp add: modify_task_def split: option.splits)

lemma tasks_get_modify_task [simp]:
  "tasks_get (modify_task tid f s) tid' =
     (if tid' = tid then map_option f (tasks_get s tid) else tasks_get s tid')"
  by (simp add: tasks_get_def)

lemma retries_extended_append:
  "retries s' = retries s @ [\<lparr> retry_task = tid, delay = backoff s task, retryTimer = Armed \<rparr>] \<Longrightarrow>
   objects s tid = Some task \<Longrightarrow> retries_extended s s'"
  by (auto simp: retries_extended_def nth_append)

lemma backoff_cong:
  "defaultRetryBaseDelay s' = defaultRetryBaseDelay s \<Longrightarrow> attempts t' = attempts t \<Longrightarrow>
   backoff s' t' = backoff s t"
  by (simp add: backoff_def)

lemma backoff_update [simp]:
  "backoff (s\<lparr> invocations := i \<rparr>) t = backoff s t"
  "backoff (s\<lparr> running := r \<rparr>) t = backoff s t"
  "backoff (s\<lparr> timers := ts \<rparr>) t = backoff s t"
  "backoff (modify_task tid f s) t = backoff s t"
  "backoff s (t\<lparr> status := st \<rparr>) = backoff s t"
  "backoff s (t\<lparr> completedAt := c \<rparr>) = backoff s t"
  "backoff s (t\<lparr> error := e \<rparr>) = backoff s t"
  by (simp_all add: backoff_def)

lemma timeout_fires_retries:
  "retries (timeout_fires k now s) =
     (if k < length (invocations s) \<and> timeoutTimer (invocations s ! k) = Armed then
        (case objects s (inv_task (invocations s ! k)) of
           None \<Rightarrow> retries s
         | Some task \<Rightarrow>
             if attempts task < maxRetries task \<and> inv_task (invocations s ! k) \<in> set (tasks s)
             then retries s @ [\<lparr> retry_task = inv_task (invocations s ! k),
                                 delay = backoff s task, retryTimer = Armed \<rparr>]
             else retries s)
      else retries s)"
  by (simp add: timeout_fires_def Let_def scheduleRetry_retries tasks_get_def
           split: option.splits)

lemma settle_retries:
  "retries (settle k out now s) =
     (if k < length (invocations s) \<and> \<not> settled (invocations s ! k) \<and>
         \<not> timedOut (invocations s ! k) then
        (case out of
           Resolved v \<Rightarrow> retries s
         | Rejected e \<Rightarrow>
            (case objects s (inv_task (invocations s ! k)) of
               None \<Rightarrow> retries s
             | Some task \<Rightarrow>
                 if attempts task < maxRetries task \<and> inv_task (invocations s ! k) \<in> set (tasks s)
                 then retries s @ [\<lparr> retry_task = inv_task (invocations s ! k),
                                     delay = backoff s task, retryTimer = Armed \<rparr>]
                 else retries s))
      else retries s)"
  by (simp add: settle_def Let_def scheduleRetry_retries tasks_get_def
           split: option.splits outcome.splits)

lemma retries_extended_cases:
  "retries s' = retries s \<or>
   (\<exists>tid task. objects s tid = Some task \<and>
      retries s' = retries s @ [\<lparr> retry_task = tid, delay = backoff s task, retryTimer = Armed \<rparr>]) \<Longrightarrow>
   retries_extended s s'"
  by (auto simp: retries_extended_def nth_append)

lemma retries_extended_settle: "retries_extended s (settle k out now s)"
proof (cases "k < length (invocations s) \<and> \<not> settled (invocations s ! k) \<and>
    \<not> timedOut (invocations s ! k)")
  case False
  then show ?thesis by (intro retries_extended_cases disjI1) (auto simp: settle_retries)
next
  case True
  show ?thesis
  proof (cases out)
    case (Resolved v)
    then show ?thesis by (intro retries_extended_cases disjI1) (simp add: settle_retries)
  next
    case (Rejected e)
    show ?thesis
    proof (cases "objects s (inv_task (invocations s ! k))")
      case None
      then show ?thesis using Rejected
        by (intro retries_extended_cases disjI1) (simp add: settle_retries)
    next
      case (Some task)
      show ?thesis
      proof (cases "attempts task < maxRetries task \<and> inv_task (invocations s ! k) \<in> set (tasks s)")
        case False
        then show ?thesis using Rejected Some
          by (intro retries_extended_cases disjI1) (auto simp: settle_retries)
      next
        case yes: True
        have "retries (settle k out now s) =
            retries s @ [\<lparr> retry_task = inv_task (invocations s ! k),
                            delay = backoff s task, retryTimer = Armed \<rparr>]"
          using True Rejected Some yes by (simp add: settle_retries)
        then show ?thesis using Some by (rule retries_extended_append)
      qed
    qed
  qed
qed

lemma retries_extended_step: "retries_extended s (step ev s)"
proof -
  obtain now e where ev: "ev = (now, e)" by (cases ev)
  show ?thesis
  proof (cases e)
    case (TimeoutFires k)
    then show ?thesis unfolding ev
      by (auto simp: timeout_fires_retries simp del: split_paired_Ex split_paired_All
               intro!: retries_extended_cases split: option.splits)
  next
    case (Settles k out)
    then show ?thesis unfolding ev
      by (simp add: retries_extended_settle)
  next
    case (RetryFires r)
    then show ?thesis unfolding ev
      by (auto simp: retry_fires_def Let_def insertByPriority_Some map_update
                     list_update_same_conv
               intro!: retries_extended_same split: option.splits)
  next
    case (Enqueue config)
    then show ?thesis unfolding ev
      by (auto simp: enqueue_def generateId_def Let_def insertByPriority_Some
               intro!: retries_extended_same split: option.splits handler_arg.splits)
  qed (auto simp: ev pause_def resume_def dispose_def onTaskComplete_def onTaskFailed_def
            intro!: retries_extended_same)
qed

lemmas example_defs2 =
  settle_def timeout_fires_def retry_fires_def scheduleRetry_def modify_task_def notify_def
  clear_timeoutTimer_def clear_retryTimer_def clearTimeout_def power_int_def
  clear_def clear_one_def toRemove_def dispose_def pause_def resume_def
  onTaskComplete_def onTaskFailed_def

lemma example_one_failure:
  "retries (run one_failure example_queue) =
     [\<lparr> retry_task = (0, 1), delay = 100, retryTimer = Armed \<rparr>]"
  by (simp add: one_failure_def example_defs example_defs2)

text \<open>
  C10. \<open>enqueue\<close> does the same whatever the \<open>retryBaseDelay\<close> field of its argument
  is. In every step of the queue the retry timers that exist keep their task and their
  delay, and every retry timer the step arms has the delay
  \<open>defaultRetryBaseDelay * 2^(attempts - 1)\<close>, where \<open>attempts\<close> is the attempt counter
  of its task when the step begins (the failed attempt is counted).
\<close>

theorem retry_delay_ignores_task_option:
  "enqueue (config\<lparr> cfg_retryBaseDelay := x \<rparr>) now s = enqueue config now s \<and>
   length (retries s) \<le> length (retries (step ev s)) \<and>
   (\<forall>r < length (retries (step ev s)).
      if r < length (retries s)
      then retry_task (retries (step ev s) ! r) = retry_task (retries s ! r) \<and>
           delay (retries (step ev s) ! r) = delay (retries s ! r)
      else \<exists>task. objects s (retry_task (retries (step ev s) ! r)) = Some task \<and>
             delay (retries (step ev s) ! r) =
               of_int (defaultRetryBaseDelay s) * 2 powi (attempts task - 1))"
proof -
  have "enqueue (config\<lparr> cfg_retryBaseDelay := x \<rparr>) now s = enqueue config now s"
    by (simp add: enqueue_def new_task_def split: handler_arg.splits)
  then show ?thesis
    using retries_extended_step [of s ev, unfolded retries_extended_def backoff_def]
    by simp
qed

theorem retry_delay_ignores_task_option_witness:
  "cfg_retryBaseDelay (example_config 3 3) = Integer 5 \<and>
   defaultRetryBaseDelay example_queue = 100 \<and>
   retries (run [(0, Enqueue (example_config 3 3))] example_queue) = [] \<and>
   length (retries (run one_failure example_queue)) = 1 \<and>
   (\<exists>task. objects (run [(0, Enqueue (example_config 3 3))] example_queue)
             (retry_task (retries (run one_failure example_queue) ! 0)) = Some task \<and>
           attempts task = 1 \<and>
           delay (retries (run one_failure example_queue) ! 0) = 100 * 2 powi (attempts task - 1))"
proof -
  let ?s = "run [(0, Enqueue (example_config 3 3))] example_queue"
  have run: "run one_failure example_queue = step (1, Settles 0 (Rejected ''boom'')) ?s"
    by (simp add: one_failure_def run_def)
  have r0: "retries ?s = []" by (simp add: example_defs)
  have base: "defaultRetryBaseDelay ?s = 100" by (simp add: example_queue_def)
  have len: "length (retries (run one_failure example_queue)) = 1"
    by (simp add: example_one_failure)
  from retry_delay_ignores_task_option [of _ _ _ ?s "(1, Settles 0 (Rejected ''boom''))"]
  have "\<forall>r < length (retries (step (1, Settles 0 (Rejected ''boom'')) ?s)).
      if r < length (retries ?s)
      then retry_task (retries (step (1, Settles 0 (Rejected ''boom'')) ?s) ! r) = retry_task (retries ?s ! r) \<and>
           delay (retries (step (1, Settles 0 (Rejected ''boom'')) ?s) ! r) = delay (retries ?s ! r)
      else \<exists>task. objects ?s (retry_task (retries (step (1, Settles 0 (Rejected ''boom'')) ?s) ! r)) = Some task \<and>
             delay (retries (step (1, Settles 0 (Rejected ''boom'')) ?s) ! r) =
               of_int (defaultRetryBaseDelay ?s) * 2 powi (attempts task - 1)"
    by blast
  then have "\<exists>task. objects ?s (retry_task (retries (run one_failure example_queue) ! 0)) = Some task \<and>
      delay (retries (run one_failure example_queue) ! 0) = 100 * 2 powi (attempts task - 1)"
    using len r0 base unfolding run [symmetric] by auto
  moreover have "objects ?s (retry_task (retries (run one_failure example_queue) ! 0)) = Some task \<Longrightarrow>
      attempts task = 1" for task
    by (auto simp: example_one_failure) (auto simp: example_defs)
  ultimately show ?thesis using r0 len
    by (auto simp: example_config_def example_queue_def)
qed

lemma invocations_grow_refl [simp]: "invocations_grow s s"
  by (simp add: invocations_grow_def)

lemma invocations_grow_trans:
  "invocations_grow s s1 \<Longrightarrow> invocations_grow s1 s2 \<Longrightarrow> invocations_grow s s2"
  by (fastforce simp: invocations_grow_def)

lemma invocations_grow_same:
  "invocations s' = invocations s \<Longrightarrow> invocations_grow s s'"
  by (simp add: invocations_grow_def)

lemma invocations_grow_maps:
  "map inv_task (invocations s') = map inv_task (invocations s) \<Longrightarrow>
   map timedOut (invocations s') = map timedOut (invocations s) \<Longrightarrow>
   map settled (invocations s') = map settled (invocations s) \<Longrightarrow>
   invocations_grow s s'"
  unfolding invocations_grow_def
  by (metis length_map nth_map order_refl)

lemma clear_timeoutTimer_maps [simp]:
  "length (clear_timeoutTimer k xs) = length xs"
  "map inv_task (clear_timeoutTimer k xs) = map inv_task xs"
  "map timedOut (clear_timeoutTimer k xs) = map timedOut xs"
  "map settled (clear_timeoutTimer k xs) = map settled xs"
  by (simp_all add: clear_timeoutTimer_def map_update list_update_same_conv)

lemma fold_clear_timeoutTimer_maps [simp]:
  "length (fold clear_timeoutTimer ks xs) = length xs"
  "map inv_task (fold clear_timeoutTimer ks xs) = map inv_task xs"
  "map timedOut (fold clear_timeoutTimer ks xs) = map timedOut xs"
  "map settled (fold clear_timeoutTimer ks xs) = map settled xs"
  by (induction ks arbitrary: xs; simp)+

lemma invocations_grow_processNext_loop:
  "invocations_grow s s1 \<Longrightarrow> invocations_grow s (processNext_loop now s1)"
  by (rule processNext_loop_rule [where P = "invocations_grow s"])
     (auto simp: invocations_grow_def executeTask_def nth_append split: option.splits)

lemma invocations_grow_processNext:
  "invocations_grow s s1 \<Longrightarrow> invocations_grow s (processNext now s1)"
  by (simp add: processNext_def invocations_grow_processNext_loop)

lemma invocations_grow_update:
  "invocations s' = (invocations s)[k := i] \<Longrightarrow>
   inv_task i = inv_task (invocations s ! k) \<Longrightarrow>
   (timedOut (invocations s ! k) \<longrightarrow> timedOut i) \<Longrightarrow>
   (settled (invocations s ! k) \<longrightarrow> settled i) \<Longrightarrow> invocations_grow s s'"
  by (cases "k < length (invocations s)") (auto simp: invocations_grow_def nth_list_update)

lemma invocations_grow_clear_update:
  "invocations s' = clear_timeoutTimer k ((invocations s)[k := i]) \<Longrightarrow>
   inv_task i = inv_task (invocations s ! k) \<Longrightarrow>
   (timedOut (invocations s ! k) \<longrightarrow> timedOut i) \<Longrightarrow>
   (settled (invocations s ! k) \<longrightarrow> settled i) \<Longrightarrow> invocations_grow s s'"
  by (cases "k < length (invocations s)")
     (auto simp: invocations_grow_def clear_timeoutTimer_def nth_list_update)

lemma invocations_grow_step: "invocations_grow s (step ev s)"
proof -
  obtain now e where ev: "ev = (now, e)" by (cases ev)
  show ?thesis
  proof (cases e)
    case (Enqueue config)
    then show ?thesis unfolding ev
      by (auto simp: enqueue_def generateId_def Let_def insertByPriority_Some
               intro!: invocations_grow_processNext intro: invocations_grow_same
               split: option.splits handler_arg.splits)
  next
    case Resume
    then show ?thesis unfolding ev
      by (auto simp: resume_def intro!: invocations_grow_processNext intro: invocations_grow_same)
  next
    case Dispose
    then show ?thesis unfolding ev
      by (auto simp: dispose_def intro!: invocations_grow_maps)
  next
    case (TimeoutFires k)
    then show ?thesis unfolding ev
      by (auto simp: timeout_fires_def Let_def
               intro!: invocations_grow_processNext
               intro: invocations_grow_update
               split: option.splits)
  next
    case (Settles k out)
    then show ?thesis unfolding ev
      by (auto simp: settle_def Let_def
               intro!: invocations_grow_processNext
               intro: invocations_grow_update invocations_grow_clear_update
               split: option.splits outcome.splits)
  next
    case (RetryFires r)
    then show ?thesis unfolding ev
      by (auto simp: retry_fires_def Let_def insertByPriority_Some
               intro!: invocations_grow_processNext intro: invocations_grow_same
               split: option.splits)
  qed (auto simp: ev pause_def onTaskComplete_def onTaskFailed_def
            intro!: invocations_grow_same)
qed

lemma invocations_grow_run: "invocations_grow s (run evs s)"
proof -
  have "invocations_grow s s1 \<Longrightarrow> invocations_grow s (fold step evs s1)" for s1
  proof (induction evs arbitrary: s1)
    case Nil
    then show ?case by simp
  next
    case (Cons ev evs)
    have "invocations_grow s (step ev s1)"
      using Cons.prems invocations_grow_step by (rule invocations_grow_trans)
    then show ?case using Cons.IH by simp
  qed
  then show ?thesis by (simp add: run_def)
qed

lemma timeout_fires_sets_flag:
  assumes "k < length (invocations s)" "timeoutTimer (invocations s ! k) = Armed"
  shows "k < length (invocations (timeout_fires k now s)) \<and>
         timedOut (invocations (timeout_fires k now s) ! k)"
proof -
  let ?s1 = "s\<lparr> invocations := (invocations s)
      [k := (invocations s ! k)\<lparr> timedOut := True, timeoutTimer := Fired \<rparr>] \<rparr>"
  have "invocations_grow ?s1 (timeout_fires k now s)"
    using assms
    by (auto simp: timeout_fires_def Let_def
             intro!: invocations_grow_processNext intro: invocations_grow_same
             split: option.splits)
  then show ?thesis using assms by (auto simp: invocations_grow_def)
qed

lemma settle_timedOut:
  assumes "k < length (invocations s)" "timedOut (invocations s ! k)"
  shows "settle k out now s =
         s\<lparr> invocations := (invocations s)[k := (invocations s ! k)\<lparr> settled := True \<rparr>] \<rparr>"
proof (cases "settled (invocations s ! k)")
  case True
  then have same: "(invocations s ! k)\<lparr> settled := True \<rparr> = invocations s ! k" by simp
  show ?thesis using True assms by (simp add: settle_def same)
next
  case False
  then show ?thesis using assms by (simp add: settle_def Let_def)
qed

text \<open>
  C6. When the timeout timer of an attempt fires while it is armed, then after any
  further events the flag \<open>timedOut\<close> of that attempt is still set, and the settlement
  of its handler, with a result or with an error, leaves every field of the queue as
  it is and calls no callback: the state differs at most in the mark that the promise
  has settled.
\<close>

theorem late_settlement_discarded:
  "k < length (invocations s) \<and> timeoutTimer (invocations s ! k) = Armed \<longrightarrow>
   (let s1 = run evs (timeout_fires k now s); s2 = settle k out now' s1 in
      timedOut (invocations s1 ! k) \<and>
      s2 = s1\<lparr> invocations := (invocations s1)[k := (invocations s1 ! k)\<lparr> settled := True \<rparr>] \<rparr> \<and>
      objects s2 = objects s1 \<and> tasks s2 = tasks s1 \<and> running s2 = running s1 \<and>
      queue s2 = queue s1 \<and> retries s2 = retries s1 \<and>
      notifications s2 = notifications s1)"
proof
  assume a: "k < length (invocations s) \<and> timeoutTimer (invocations s ! k) = Armed"
  let ?s0 = "timeout_fires k now s"
  let ?s1 = "run evs ?s0"
  have f0: "k < length (invocations ?s0) \<and> timedOut (invocations ?s0 ! k)"
    using a by (simp add: timeout_fires_sets_flag)
  have "invocations_grow ?s0 ?s1" by (rule invocations_grow_run)
  then have f1: "k < length (invocations ?s1)" "timedOut (invocations ?s1 ! k)"
    using f0 by (auto simp: invocations_grow_def)
  have "settle k out now' ?s1 =
      ?s1\<lparr> invocations := (invocations ?s1)[k := (invocations ?s1 ! k)\<lparr> settled := True \<rparr>] \<rparr>"
    using f1 by (rule settle_timedOut)
  then show "let s1 = ?s1; s2 = settle k out now' s1 in
      timedOut (invocations s1 ! k) \<and>
      s2 = s1\<lparr> invocations := (invocations s1)[k := (invocations s1 ! k)\<lparr> settled := True \<rparr>] \<rparr> \<and>
      objects s2 = objects s1 \<and> tasks s2 = tasks s1 \<and> running s2 = running s1 \<and>
      queue s2 = queue s1 \<and> retries s2 = retries s1 \<and>
      notifications s2 = notifications s1"
    using f1 by (simp add: Let_def)
qed

lemma example_task_running:
  "invocations task_running =
     [\<lparr> inv_task = (0, 1), inv_handler = 7, timeout_ms = 30000, timedOut = False,
        timeoutTimer = Armed, settled = False \<rparr>]"
  by (simp add: task_running_def example_defs example_defs2)

theorem late_settlement_discarded_witness:
  "0 < length (invocations task_running) \<and>
   timeoutTimer (invocations task_running ! 0) = Armed \<and>
   timedOut (invocations (run timeout_then_retry (timeout_fires 0 30000 task_running)) ! 0) \<and>
   objects (settle 0 (Resolved ''late'') 50000
              (run timeout_then_retry (timeout_fires 0 30000 task_running))) =
     objects (run timeout_then_retry (timeout_fires 0 30000 task_running)) \<and>
   notifications (settle 0 (Resolved ''late'') 50000
              (run timeout_then_retry (timeout_fires 0 30000 task_running))) =
     notifications (run timeout_then_retry (timeout_fires 0 30000 task_running)) \<and>
   map_option (\<lambda>t. (status t, attempts t, result t))
     (objects (settle 0 (Resolved ''late'') 50000
        (run timeout_then_retry (timeout_fires 0 30000 task_running))) (0, 1)) =
     Some (Running, 2, None)"
proof -
  have "map_option (\<lambda>t. (status t, attempts t, result t))
     (objects (run timeout_then_retry (timeout_fires 0 30000 task_running)) (0, 1)) =
     Some (Running, 2, None)"
    by (simp add: task_running_def timeout_then_retry_def example_defs example_defs2)
  moreover
  have h: "0 < length (invocations task_running) \<and>
      timeoutTimer (invocations task_running ! 0) = Armed"
    by (simp add: example_task_running)
  ultimately show ?thesis
    using late_settlement_discarded [of 0 task_running timeout_then_retry 30000
      "Resolved ''late''" 50000]
    by (simp add: Let_def)
qed








text \<open>
  C5 as the claim states it fails: with \<open>maxRetries = 3\<close> and a base delay of 100 the
  task is \<open>failed\<close> after three attempts, and the delays recorded between them are
  100 and 200; no third delay of 400 is ever scheduled.
\<close>

theorem three_delays_counterexample:
  "cfg_maxRetries (example_config 3 3) = Integer 3 \<and>
   defaultRetryBaseDelay example_queue = 100 \<and>
   map_option (\<lambda>t. (status t, attempts t)) (objects (run always_failing example_queue) (0, 1)) =
     Some (Failed, 3) \<and>
   length (invocations (run always_failing example_queue)) = 3 \<and>
   map delay (retries (run always_failing example_queue)) = [100, 200] \<and>
   map delay (retries (run always_failing example_queue)) \<noteq> [100, 200, 400]"
  by (simp add: always_failing_def example_defs example_defs2)

text \<open>
  C5, amended. On a new queue, a task submitted with \<open>maxRetries = 3\<close> whose handler
  fails on every attempt is \<open>failed\<close> after exactly three attempts
  (\<open>attempts = 3\<close>, three invocations of the handler), and exactly two backoff delays
  are recorded between the attempts: the base delay and twice the base delay, which is
  \<open>defaultRetryBaseDelay * 2^(attempts - 1)\<close> for \<open>attempts = 1\<close> and \<open>2\<close>.
\<close>

theorem three_attempts_two_delays:
  assumes "TaskQueue_new options = Inr s0"
    and "cfg_handler config = Function h"
    and "valid_priority (cfg_priority config)"
    and "cfg_maxRetries config = Integer 3"
  shows "let s = run [(t0, Enqueue config),
                      (t1, Settles 0 (Rejected e1)), (t2, RetryFires 0),
                      (t3, Settles 1 (Rejected e2)), (t4, RetryFires 1),
                      (t5, Settles 2 (Rejected e3))] s0
         in map_option (\<lambda>t. (status t, attempts t, error t)) (objects s (t0, 1)) =
              Some (Failed, 3, Some e3) \<and>
            length (invocations s) = 3 \<and>
            map delay (retries s) =
              [of_int (defaultRetryBaseDelay s0) * 2 powi (1 - 1),
               of_int (defaultRetryBaseDelay s0) * 2 powi (2 - 1)] \<and>
            map delay (retries s) =
              [of_int (defaultRetryBaseDelay s0), 2 * of_int (defaultRetryBaseDelay s0)]"
proof -
  have mc: "1 \<le> maxConcurrency s0" and s0: "s0 = s0\<lparr> objects := (\<lambda>_. None), tasks := [], queue := [], running := {},
                 timers := [], retryTimers := [], handlers := (\<lambda>_. None),
                 paused := False, disposed := False, idCounter := 0,
                 onCompleteCallback := None, onFailedCallback := None,
                 invocations := [], retries := [], notifications := [] \<rparr>"
    using assms(1) by (auto simp: TaskQueue_new_def Let_def split: if_splits)
  show ?thesis
    apply (subst s0)
    using mc assms(2-4)
    by (simp add: run_def enqueue_def generateId_def
        valid_priority_def valid_maxRetries_def new_task_def insertByPriority_def tasks_get_def
        processNext_def processNext_loop.simps executeTask_def Let_def example_defs2)
qed

theorem three_attempts_two_delays_witness:
  "TaskQueue_new example_options = Inr example_queue \<and>
   cfg_handler (example_config 3 3) = Function 7 \<and>
   valid_priority (cfg_priority (example_config 3 3)) \<and>
   cfg_maxRetries (example_config 3 3) = Integer 3 \<and>
   map_option (\<lambda>t. (status t, attempts t, error t))
     (objects (run always_failing example_queue) (0, 1)) = Some (Failed, 3, Some ''boom'') \<and>
   length (invocations (run always_failing example_queue)) = 3 \<and>
   map delay (retries (run always_failing example_queue)) = [100, 200]"
proof -
  have c: "cfg_handler (example_config 3 3) = Function 7"
    "valid_priority (cfg_priority (example_config 3 3))"
    "cfg_maxRetries (example_config 3 3) = Integer 3"
    by (simp_all add: example_config_def valid_priority_def)
  have b: "defaultRetryBaseDelay example_queue = 100"
    by (simp add: example_queue_def)
  show ?thesis
    using three_attempts_two_delays [OF example_queue_new c,
        of 0 10 "''boom''" 110 120 "''boom''" 320 330 "''boom''"] c b example_queue_new
    by (simp add: Let_def always_failing_def)
qed

lemma fold_clear_timeoutTimer_nth:
  assumes "k < length xs"
  shows "inv_task (fold clear_timeoutTimer ks xs ! k) = inv_task (xs ! k)"
    and "timedOut (fold clear_timeoutTimer ks xs ! k) = timedOut (xs ! k)"
    and "settled (fold clear_timeoutTimer ks xs ! k) = settled (xs ! k)"
proof -
  have len: "k < length (fold clear_timeoutTimer ks xs)" using assms by simp
  show "inv_task (fold clear_timeoutTimer ks xs ! k) = inv_task (xs ! k)"
    using nth_map [OF len, of inv_task] assms by simp
  show "timedOut (fold clear_timeoutTimer ks xs ! k) = timedOut (xs ! k)"
    using nth_map [OF len, of timedOut] assms by simp
  show "settled (fold clear_timeoutTimer ks xs ! k) = settled (xs ! k)"
    using nth_map [OF len, of settled] assms by simp
qed

lemma dispose_fields [simp]:
  "disposed (dispose s) = True"
  "paused (dispose s) = True"
  "objects (dispose s) = objects s"
  "tasks (dispose s) = tasks s"
  "running (dispose s) = running s"
  "notifications (dispose s) = notifications s"
  "onCompleteCallback (dispose s) = onCompleteCallback s"
  "onFailedCallback (dispose s) = onFailedCallback s"
  "length (invocations (dispose s)) = length (invocations s)"
  "queue (dispose s) = []"
  by (simp_all add: dispose_def)

lemma dispose_invocation:
  assumes "k < length (invocations s)"
  shows "inv_task (invocations (dispose s) ! k) = inv_task (invocations s ! k)"
    and "timedOut (invocations (dispose s) ! k) = timedOut (invocations s ! k)"
    and "settled (invocations (dispose s) ! k) = settled (invocations s ! k)"
  using assms by (simp_all add: dispose_def fold_clear_timeoutTimer_nth)

text \<open>
  C4 as the claim states it fails: a task is running when the queue is disposed; its
  handler then resolves, and the task becomes \<open>completed\<close> with the result stored, and
  the completion callback is called.
\<close>

theorem dispose_discards_counterexample:
  "map_option status (objects (dispose task_running) (0, 1)) = Some Running \<and>
   notifications (dispose task_running) = [] \<and>
   map_option (\<lambda>t. (status t, result t)) (objects settled_after_dispose (0, 1)) =
     Some (Completed, Some ''late'') \<and>
   map (\<lambda>n. case n of Notify c t \<Rightarrow> (c, task_id t, status t)) (notifications settled_after_dispose) =
     [(1, (0, 1), Completed)]"
  by (simp add: settled_after_dispose_def task_running_def example_defs example_defs2)

lemma notify_notifications:
  "notifications (notify cb tid s) =
     notifications s @
       (case cb of None \<Rightarrow> [] | Some c \<Rightarrow>
          (case objects s tid of None \<Rightarrow> [] | Some t \<Rightarrow> [Notify c t]))"
  by (simp add: notify_def split: option.splits)

text \<open>
  C4, amended. After \<open>dispose\<close> the dispatcher is inert, but the settlement of a
  handler that was in flight (its timeout had not fired) is still processed. When the
  handler resolves, the task becomes \<open>completed\<close>, the result is stored and the
  completion callback, if one is registered, is called with the task. When the handler
  rejects and no attempt is left, the task becomes \<open>failed\<close> with the error stored and
  the failure callback, if one is registered, is called. In both cases the task leaves
  the running set and no new attempt is started.
\<close>

theorem settlement_after_dispose:
  assumes "k < length (invocations s0)"
    and "\<not> settled (invocations s0 ! k)" and "\<not> timedOut (invocations s0 ! k)"
    and "objects s0 (inv_task (invocations s0 ! k)) = Some t"
  shows "let s = dispose s0; tid = inv_task (invocations s0 ! k);
             resolved = settle k (Resolved v) now s;
             rejected = settle k (Rejected e) now s;
             t1 = t\<lparr> status := Completed, result := Some v, completedAt := Some now \<rparr>;
             t2 = t\<lparr> error := Some e, status := Failed, completedAt := Some now \<rparr>
         in objects resolved tid = Some t1 \<and>
            notifications resolved = notifications s0 @
              (case onCompleteCallback s0 of None \<Rightarrow> [] | Some c \<Rightarrow> [Notify c t1]) \<and>
            tid \<notin> running resolved \<and>
            length (invocations resolved) = length (invocations s0) \<and>
            (\<not> attempts t < maxRetries t \<longrightarrow>
               objects rejected tid = Some t2 \<and>
               notifications rejected = notifications s0 @
                 (case onFailedCallback s0 of None \<Rightarrow> [] | Some c \<Rightarrow> [Notify c t2]) \<and>
               tid \<notin> running rejected \<and>
               length (invocations rejected) = length (invocations s0))"
  using assms
  by (simp add: Let_def settle_def dispose_invocation processNext_idle notify_notifications
           split: option.splits)

lemma example_last_attempt_running:
  "invocations last_attempt_running =
     [\<lparr> inv_task = (0, 1), inv_handler = 7, timeout_ms = 30000, timedOut = False,
        timeoutTimer = Armed, settled = False \<rparr>]"
  "objects last_attempt_running (0, 1) = Some last_attempt_task"
  "onCompleteCallback last_attempt_running = Some 1"
  "onFailedCallback last_attempt_running = Some 2"
  "notifications last_attempt_running = []"
  by (simp_all add: last_attempt_running_def last_attempt_task_def example_defs example_defs2)

theorem settlement_after_dispose_witness:
  "0 < length (invocations last_attempt_running) \<and>
   \<not> settled (invocations last_attempt_running ! 0) \<and>
   \<not> timedOut (invocations last_attempt_running ! 0) \<and>
   objects last_attempt_running (inv_task (invocations last_attempt_running ! 0)) =
     Some last_attempt_task \<and>
   \<not> attempts last_attempt_task < maxRetries last_attempt_task \<and>
   objects (settle 0 (Resolved ''late'') 5 (dispose last_attempt_running)) (0, 1) =
     Some (last_attempt_task\<lparr> status := Completed, result := Some ''late'',
             completedAt := Some 5 \<rparr>) \<and>
   notifications (settle 0 (Resolved ''late'') 5 (dispose last_attempt_running)) =
     [Notify 1 (last_attempt_task\<lparr> status := Completed, result := Some ''late'',
             completedAt := Some 5 \<rparr>)] \<and>
   objects (settle 0 (Rejected ''boom'') 5 (dispose last_attempt_running)) (0, 1) =
     Some (last_attempt_task\<lparr> error := Some ''boom'', status := Failed,
             completedAt := Some 5 \<rparr>) \<and>
   notifications (settle 0 (Rejected ''boom'') 5 (dispose last_attempt_running)) =
     [Notify 2 (last_attempt_task\<lparr> error := Some ''boom'', status := Failed,
             completedAt := Some 5 \<rparr>)]"
proof -
  have h: "0 < length (invocations last_attempt_running)"
    "\<not> settled (invocations last_attempt_running ! 0)"
    "\<not> timedOut (invocations last_attempt_running ! 0)"
    "objects last_attempt_running (inv_task (invocations last_attempt_running ! 0)) =
       Some last_attempt_task"
    using example_last_attempt_running by simp_all
  have a: "\<not> attempts last_attempt_task < maxRetries last_attempt_task"
    by (simp add: last_attempt_task_def)
  have i: "inv_task (invocations last_attempt_running ! 0) = (0, 1)"
    by (simp add: example_last_attempt_running)
  show ?thesis
    using settlement_after_dispose [OF h, of "''late''" 5 "''boom''"] h a i
      example_last_attempt_running(3-5)
    by (simp add: Let_def)
qed

text \<open>
  C3 at a failing input. A task failed its first attempt and waits out its backoff
  delay: it is \<open>pending\<close>, its retry timer is armed, and it is not in the ready list.
  \<open>clear\<close> collects its victims from the ready list only, so it leaves this task, its
  handler and its retry timer as they are; when the timer fires, the task enters the
  ready list again and runs its second attempt.
\<close>

theorem clear_misses_backoff:
  "map_option status (getTask (0, 1) in_backoff) = Some Pending \<and>
   queue in_backoff = [] \<and>
   map retryTimer (retries in_backoff) = [Armed] \<and>
   clear in_backoff = in_backoff \<and>
   map_option status (getTask (0, 1) (clear in_backoff)) = Some Pending \<and>
   handlers (clear in_backoff) (0, 1) = Some 7 \<and>
   map retryTimer (retries (clear in_backoff)) = [Armed] \<and>
   map_option (\<lambda>t. (status t, attempts t))
     (getTask (0, 1) (run [(50, Clear), (110, RetryFires 0)] in_backoff)) = Some (Running, 2) \<and>
   length (invocations (run [(50, Clear), (110, RetryFires 0)] in_backoff)) = 2"
  by (simp add: in_backoff_def one_failure_def getTask_def example_defs example_defs2)

lemma wf_ids_irrelevant [simp]:
  "wf_ids (s\<lparr> running := v3 \<rparr>) = wf_ids s"
  "wf_ids (s\<lparr> timers := v4 \<rparr>) = wf_ids s"
  "wf_ids (s\<lparr> retryTimers := v5 \<rparr>) = wf_ids s"
  "wf_ids (s\<lparr> handlers := v6 \<rparr>) = wf_ids s"
  "wf_ids (s\<lparr> paused := v7 \<rparr>) = wf_ids s"
  "wf_ids (s\<lparr> disposed := v8 \<rparr>) = wf_ids s"
  "wf_ids (s\<lparr> maxConcurrency := v10 \<rparr>) = wf_ids s"
  "wf_ids (s\<lparr> defaultTimeout := v11 \<rparr>) = wf_ids s"
  "wf_ids (s\<lparr> defaultMaxRetries := v12 \<rparr>) = wf_ids s"
  "wf_ids (s\<lparr> defaultRetryBaseDelay := v13 \<rparr>) = wf_ids s"
  "wf_ids (s\<lparr> onCompleteCallback := v14 \<rparr>) = wf_ids s"
  "wf_ids (s\<lparr> onFailedCallback := v15 \<rparr>) = wf_ids s"
  "wf_ids (s\<lparr> notifications := v18 \<rparr>) = wf_ids s"
  "wf_ids (s\<lparr> enqueued := v19 \<rparr>) = wf_ids s"
  "wf_ids (s\<lparr> enqueuedAt := v20 \<rparr>) = wf_ids s"
  "wf_ids (notify cb tid s) = wf_ids s"
  by (simp_all add: wf_ids_def notify_def split: option.splits)

lemma dom_objects_modify_task [simp]: "dom (objects (modify_task tid f s)) = dom (objects s)"
  by (auto simp: modify_task_def split: option.splits)

lemma wf_ids_modify_task [simp]: "wf_ids (modify_task tid f s) = wf_ids s"
  by (simp add: wf_ids_def)

lemma dom_objects_scheduleRetry [simp]: "dom (objects (scheduleRetry tid s)) = dom (objects s)"
  by (auto simp: scheduleRetry_def tasks_get_def split: option.splits if_splits)


lemma dom_objects_executeTask [simp]: "dom (objects (executeTask tid now s)) = dom (objects s)"
  by (auto simp: executeTask_def tasks_get_def split: option.splits if_splits)












lemma wf_ids_invocation_known:
  assumes "wf_ids s" "k < length (invocations s)"
  shows "inv_task (invocations s ! k) \<in> dom (objects s)"
proof -
  have "inv_task (invocations s ! k) \<in> inv_task ` set (invocations s)"
    using assms(2) by (intro imageI nth_mem)
  then show ?thesis using assms(1) unfolding wf_ids_def by auto
qed








lemma new_task_idCounter [simp]:
  "new_task tid config now (s\<lparr> idCounter := n \<rparr>) = new_task tid config now s"
  by (simp add: new_task_def split: number_arg.splits)
















lemma armed_active_irrelevant [simp]:
  "armed_active (s\<lparr> objects := v0 \<rparr>) = armed_active s"
  "armed_active (s\<lparr> tasks := v1 \<rparr>) = armed_active s"
  "armed_active (s\<lparr> queue := v2 \<rparr>) = armed_active s"
  "armed_active (s\<lparr> running := v3 \<rparr>) = armed_active s"
  "armed_active (s\<lparr> timers := v4 \<rparr>) = armed_active s"
  "armed_active (s\<lparr> retryTimers := v5 \<rparr>) = armed_active s"
  "armed_active (s\<lparr> handlers := v6 \<rparr>) = armed_active s"
  "armed_active (s\<lparr> paused := v7 \<rparr>) = armed_active s"
  "armed_active (s\<lparr> disposed := v8 \<rparr>) = armed_active s"
  "armed_active (s\<lparr> idCounter := v9 \<rparr>) = armed_active s"
  "armed_active (s\<lparr> maxConcurrency := v10 \<rparr>) = armed_active s"
  "armed_active (s\<lparr> defaultTimeout := v11 \<rparr>) = armed_active s"
  "armed_active (s\<lparr> defaultMaxRetries := v12 \<rparr>) = armed_active s"
  "armed_active (s\<lparr> defaultRetryBaseDelay := v13 \<rparr>) = armed_active s"
  "armed_active (s\<lparr> onCompleteCallback := v14 \<rparr>) = armed_active s"
  "armed_active (s\<lparr> onFailedCallback := v15 \<rparr>) = armed_active s"
  "armed_active (s\<lparr> retries := v17 \<rparr>) = armed_active s"
  "armed_active (s\<lparr> notifications := v18 \<rparr>) = armed_active s"
  "armed_active (s\<lparr> enqueued := v19 \<rparr>) = armed_active s"
  "armed_active (s\<lparr> enqueuedAt := v20 \<rparr>) = armed_active s"
  "armed_active (notify cb tid s) = armed_active s"
  by (simp_all add: armed_active_def notify_def split: option.splits)

lemma armed_active_modify_task [simp]: "armed_active (modify_task tid f s) = armed_active s"
  by (simp add: armed_active_def)

lemma armed_active_scheduleRetry [simp]: "armed_active (scheduleRetry tid s) = armed_active s"
  by (simp add: armed_active_def)













lemma active_tasks_single [simp]:
  "active_tasks [i] = (if active i then {#inv_task i#} else {#})"
  by (simp add: active_tasks_def)

lemma active_tasks_Nil [simp]: "active_tasks [] = {#}"
  by (simp add: active_tasks_def)


lemma armed_tasks_single [simp]:
  "armed_tasks [r] = (if retryTimer r = Armed then {#retry_task r#} else {#})"
  by (simp add: armed_tasks_def)

lemma armed_tasks_Nil [simp]: "armed_tasks [] = {#}"
  by (simp add: armed_tasks_def)



lemma tokens_irrelevant [simp]:
  "tokens (s\<lparr> objects := v0 \<rparr>) = tokens s"
  "tokens (s\<lparr> tasks := v1 \<rparr>) = tokens s"
  "tokens (s\<lparr> running := v3 \<rparr>) = tokens s"
  "tokens (s\<lparr> timers := v4 \<rparr>) = tokens s"
  "tokens (s\<lparr> retryTimers := v5 \<rparr>) = tokens s"
  "tokens (s\<lparr> handlers := v6 \<rparr>) = tokens s"
  "tokens (s\<lparr> paused := v7 \<rparr>) = tokens s"
  "tokens (s\<lparr> disposed := v8 \<rparr>) = tokens s"
  "tokens (s\<lparr> idCounter := v9 \<rparr>) = tokens s"
  "tokens (s\<lparr> maxConcurrency := v10 \<rparr>) = tokens s"
  "tokens (s\<lparr> defaultTimeout := v11 \<rparr>) = tokens s"
  "tokens (s\<lparr> defaultMaxRetries := v12 \<rparr>) = tokens s"
  "tokens (s\<lparr> defaultRetryBaseDelay := v13 \<rparr>) = tokens s"
  "tokens (s\<lparr> onCompleteCallback := v14 \<rparr>) = tokens s"
  "tokens (s\<lparr> onFailedCallback := v15 \<rparr>) = tokens s"
  "tokens (s\<lparr> notifications := v18 \<rparr>) = tokens s"
  "tokens (s\<lparr> enqueued := v19 \<rparr>) = tokens s"
  "tokens (s\<lparr> enqueuedAt := v20 \<rparr>) = tokens s"
  "tokens (notify cb tid s) = tokens s"
  by (simp_all add: tokens_def notify_def split: option.splits)

lemma tokens_modify_task [simp]: "tokens (modify_task tid f s) = tokens s"
  by (simp add: tokens_def)

lemma active_tasks_cong:
  "map inv_task xs = map inv_task ys \<Longrightarrow> map timedOut xs = map timedOut ys \<Longrightarrow>
   map settled xs = map settled ys \<Longrightarrow> active_tasks xs = active_tasks ys"
proof (induction xs arbitrary: ys)
  case Nil
  then show ?case by simp
next
  case (Cons x xs)
  then obtain y ys' where ys: "ys = y # ys'" by (cases ys) auto
  have "active_tasks xs = active_tasks ys'" using Cons ys by simp
  moreover have "active x = active y" "inv_task x = inv_task y"
    using Cons.prems ys by (simp_all add: active_def)
  ultimately show ?case unfolding ys by (simp add: active_tasks_def)
qed

lemma active_tasks_clear_timeoutTimer [simp]:
  "active_tasks (clear_timeoutTimer k xs) = active_tasks xs"
  by (rule active_tasks_cong) simp_all

lemma active_tasks_fold_clear [simp]:
  "active_tasks (fold clear_timeoutTimer ks xs) = active_tasks xs"
  by (rule active_tasks_cong) simp_all

lemma clearTimeout_not_Armed [simp]: "clearTimeout t \<noteq> Armed"
  by (simp add: clearTimeout_def)











lemma tokens_clear_timeoutTimer [simp]:
  "tokens (s\<lparr> invocations := clear_timeoutTimer k xs \<rparr>) = tokens (s\<lparr> invocations := xs \<rparr>)"
  by (simp add: tokens_def)









lemma tokens_registered [simp]: "tokens (registered config now s) = tokens s"
  by (simp add: tokens_def registered_def Let_def)





lemma present_irrelevant [simp]:
  "present (s\<lparr> objects := v0 \<rparr>) = present s"
  "present (s\<lparr> running := v3 \<rparr>) = present s"
  "present (s\<lparr> timers := v4 \<rparr>) = present s"
  "present (s\<lparr> retryTimers := v5 \<rparr>) = present s"
  "present (s\<lparr> handlers := v6 \<rparr>) = present s"
  "present (s\<lparr> paused := v7 \<rparr>) = present s"
  "present (s\<lparr> disposed := v8 \<rparr>) = present s"
  "present (s\<lparr> idCounter := v9 \<rparr>) = present s"
  "present (s\<lparr> maxConcurrency := v10 \<rparr>) = present s"
  "present (s\<lparr> defaultTimeout := v11 \<rparr>) = present s"
  "present (s\<lparr> defaultMaxRetries := v12 \<rparr>) = present s"
  "present (s\<lparr> defaultRetryBaseDelay := v13 \<rparr>) = present s"
  "present (s\<lparr> onCompleteCallback := v14 \<rparr>) = present s"
  "present (s\<lparr> onFailedCallback := v15 \<rparr>) = present s"
  "present (s\<lparr> invocations := v16 \<rparr>) = present s"
  "present (s\<lparr> notifications := v18 \<rparr>) = present s"
  "present (s\<lparr> enqueued := v19 \<rparr>) = present s"
  "present (s\<lparr> enqueuedAt := v20 \<rparr>) = present s"
  "present (notify cb tid s) = present s"
  by (simp_all add: present_def notify_def split: option.splits)

lemma present_modify_task [simp]: "present (modify_task tid f s) = present s"
  by (simp add: present_def)














lemma prio_irrelevant [simp]:
  "prio (s\<lparr> queue := v2 \<rparr>) = prio s"
  "prio (s\<lparr> running := v3 \<rparr>) = prio s"
  "prio (s\<lparr> timers := v4 \<rparr>) = prio s"
  "prio (s\<lparr> retryTimers := v5 \<rparr>) = prio s"
  "prio (s\<lparr> handlers := v6 \<rparr>) = prio s"
  "prio (s\<lparr> paused := v7 \<rparr>) = prio s"
  "prio (s\<lparr> disposed := v8 \<rparr>) = prio s"
  "prio (s\<lparr> idCounter := v9 \<rparr>) = prio s"
  "prio (s\<lparr> maxConcurrency := v10 \<rparr>) = prio s"
  "prio (s\<lparr> defaultTimeout := v11 \<rparr>) = prio s"
  "prio (s\<lparr> defaultMaxRetries := v12 \<rparr>) = prio s"
  "prio (s\<lparr> defaultRetryBaseDelay := v13 \<rparr>) = prio s"
  "prio (s\<lparr> onCompleteCallback := v14 \<rparr>) = prio s"
  "prio (s\<lparr> onFailedCallback := v15 \<rparr>) = prio s"
  "prio (s\<lparr> invocations := v16 \<rparr>) = prio s"
  "prio (s\<lparr> retries := v17 \<rparr>) = prio s"
  "prio (s\<lparr> notifications := v18 \<rparr>) = prio s"
  "prio (s\<lparr> enqueued := v19 \<rparr>) = prio s"
  "prio (s\<lparr> enqueuedAt := v20 \<rparr>) = prio s"
  "prio (notify cb tid s) = prio s"
  by (simp_all add: fun_eq_iff prio_def tasks_get_def notify_def split: option.splits)

lemma prio_modify_task:
  "(\<And>t. priority (f t) = priority t) \<Longrightarrow> prio (modify_task tid f s) = prio s"
  by (rule ext) (auto simp: prio_def tasks_get_def modify_task_def split: option.splits)

lemma prio_modify_task_simps [simp]:
  "prio (modify_task tid (\<lambda>t. t\<lparr> status := st, completedAt := c \<rparr>) s) = prio s"
  "prio (modify_task tid (\<lambda>t. t\<lparr> status := st, result := r, completedAt := c \<rparr>) s) = prio s"
  "prio (modify_task tid (\<lambda>t. t\<lparr> error := e \<rparr>) s) = prio s"
  "prio (modify_task tid (error_update (\<lambda>_. e)) s) = prio s"
  by (simp_all add: prio_modify_task)

lemma prio_scheduleRetry [simp]: "prio (scheduleRetry tid s) = prio s"
  by (rule ext) (auto simp: prio_def tasks_get_def scheduleRetry_def split: option.splits)

lemma prio_executeTask [simp]: "prio (executeTask tid now s) = prio s"
  by (rule ext) (auto simp: prio_def tasks_get_def executeTask_def split: option.splits)


lemma enqueued_processNext [simp]:
  "enqueuedAt (processNext now s) = enqueuedAt s" "enqueued (processNext now s) = enqueued s"
  by simp_all























lemma obj_prio_irrelevant [simp]:
  "obj_prio (s\<lparr> tasks := v1 \<rparr>) = obj_prio s"
  "obj_prio (s\<lparr> queue := v2 \<rparr>) = obj_prio s"
  "obj_prio (s\<lparr> running := v3 \<rparr>) = obj_prio s"
  "obj_prio (s\<lparr> timers := v4 \<rparr>) = obj_prio s"
  "obj_prio (s\<lparr> retryTimers := v5 \<rparr>) = obj_prio s"
  "obj_prio (s\<lparr> handlers := v6 \<rparr>) = obj_prio s"
  "obj_prio (s\<lparr> paused := v7 \<rparr>) = obj_prio s"
  "obj_prio (s\<lparr> disposed := v8 \<rparr>) = obj_prio s"
  "obj_prio (s\<lparr> idCounter := v9 \<rparr>) = obj_prio s"
  "obj_prio (s\<lparr> maxConcurrency := v10 \<rparr>) = obj_prio s"
  "obj_prio (s\<lparr> defaultTimeout := v11 \<rparr>) = obj_prio s"
  "obj_prio (s\<lparr> defaultMaxRetries := v12 \<rparr>) = obj_prio s"
  "obj_prio (s\<lparr> defaultRetryBaseDelay := v13 \<rparr>) = obj_prio s"
  "obj_prio (s\<lparr> onCompleteCallback := v14 \<rparr>) = obj_prio s"
  "obj_prio (s\<lparr> onFailedCallback := v15 \<rparr>) = obj_prio s"
  "obj_prio (s\<lparr> invocations := v16 \<rparr>) = obj_prio s"
  "obj_prio (s\<lparr> retries := v17 \<rparr>) = obj_prio s"
  "obj_prio (s\<lparr> notifications := v18 \<rparr>) = obj_prio s"
  "obj_prio (s\<lparr> enqueued := v19 \<rparr>) = obj_prio s"
  "obj_prio (s\<lparr> enqueuedAt := v20 \<rparr>) = obj_prio s"
  "obj_prio (notify cb tid s) = obj_prio s"
  by (simp_all add: fun_eq_iff obj_prio_def notify_def split: option.splits)

lemma obj_prio_modify_task:
  "(\<And>t. priority (f t) = priority t) \<Longrightarrow> obj_prio (modify_task tid f s) = obj_prio s"
  by (rule ext) (auto simp: obj_prio_def modify_task_def split: option.splits)

lemma obj_prio_modify_task_simps [simp]:
  "obj_prio (modify_task tid (\<lambda>t. t\<lparr> status := st, completedAt := c \<rparr>) s) = obj_prio s"
  "obj_prio (modify_task tid (\<lambda>t. t\<lparr> status := st, result := r, completedAt := c \<rparr>) s) = obj_prio s"
  "obj_prio (modify_task tid (\<lambda>t. t\<lparr> error := e \<rparr>) s) = obj_prio s"
  "obj_prio (modify_task tid (error_update (\<lambda>_. e)) s) = obj_prio s"
  by (simp_all add: obj_prio_modify_task)

lemma obj_prio_scheduleRetry [simp]: "obj_prio (scheduleRetry tid s) = obj_prio s"
  by (rule ext) (auto simp: obj_prio_def tasks_get_def scheduleRetry_def split: option.splits if_splits)

lemma obj_prio_executeTask [simp]: "obj_prio (executeTask tid now s) = obj_prio s"
  by (rule ext) (auto simp: obj_prio_def tasks_get_def executeTask_def split: option.splits if_splits)

lemma obj_prio_processNext [simp]: "obj_prio (processNext now s) = obj_prio s"
proof -
  have "obj_prio (processNext_loop now s) = obj_prio s"
    by (rule processNext_loop_rule [where P = "\<lambda>s'. obj_prio s' = obj_prio s"]) simp_all
  then show ?thesis by (simp add: processNext_def)
qed






















end
